theory Spec2Isabelle
  imports Main "HOL-Library.Word"
begin

section \<open>Property file of the production snitch\<close>

text \<open>
  \<^verbatim>\<open>production_snitch_base::parse_property_file\<close> reads the member
  \<^verbatim>\<open>_prop_file_contents\<close> line by line and fills \<^verbatim>\<open>_prop_values\<close>.
  Both \<^verbatim>\<open>throw_bad_format\<close> and \<^verbatim>\<open>throw_double_declaration\<close> throw the
  one exception type \<^verbatim>\<open>bad_property_file_error\<close>; opening or reading the file
  in \<^verbatim>\<open>load_property_file\<close> can fail with a system error of its own.
\<close>

datatype error = bad_property_file_error | file_system_error

text \<open>The characters \<^verbatim>\<open>std::isspace\<close> accepts in the classic locale, which
  \<^verbatim>\<open>boost::algorithm::trim\<close> removes at both ends.\<close>

definition is_space :: "char \<Rightarrow> bool" where
  "is_space c = (c \<in> set [CHR '' '', CHR 0x09, CHR 0x0A, CHR 0x0B, CHR 0x0C, CHR 0x0D])"

definition trim :: "string \<Rightarrow> string" where
  "trim s = rev (dropWhile is_space (rev (dropWhile is_space s)))"

text \<open>\<^verbatim>\<open>boost::algorithm::split(result, input, is_any_of(d))\<close> without token
  compression: one token more than there are delimiters, empty tokens kept.\<close>

function split :: "char \<Rightarrow> string \<Rightarrow> string list" where
  "split d s =
     takeWhile (\<lambda>c. c \<noteq> d) s #
       (case dropWhile (\<lambda>c. c \<noteq> d) s of [] \<Rightarrow> [] | _ # rest \<Rightarrow> split d rest)"
  by pat_completeness auto
termination
proof (relation "measure (\<lambda>(d, s). length s)")
  show "wf (measure (\<lambda>(d, s). length s))" by simp
next
  fix d :: char and s :: string and c' :: char and rest :: string
  assume "dropWhile (\<lambda>c. c \<noteq> d) s = c' # rest"
  then have "length (c' # rest) \<le> length s"
    by (metis length_dropWhile_le)
  then show "((d, rest), (d, s)) \<in> measure (\<lambda>(d, s). length s)" by simp
qed

declare split.simps [simp del]

text \<open>The lines \<^verbatim>\<open>while (std::getline(istrm, line))\<close> yields: the loop stops when
  nothing is left to read, and a final line needs no newline after it.\<close>

function getlines :: "string \<Rightarrow> string list" where
  "getlines s =
     (if s = [] then []
      else takeWhile (\<lambda>c. c \<noteq> CHR 0x0A) s #
        (case dropWhile (\<lambda>c. c \<noteq> CHR 0x0A) s of [] \<Rightarrow> [] | _ # rest \<Rightarrow> getlines rest))"
  by pat_completeness auto
termination
proof (relation "measure length")
  show "wf (measure length)" by simp
next
  fix s :: string and c' :: char and rest :: string
  assume "dropWhile (\<lambda>c. c \<noteq> CHR 0x0A) s = c' # rest"
  then have "length (c' # rest) \<le> length s"
    by (metis length_dropWhile_le)
  then show "(rest, s) \<in> measure length" by simp
qed

declare getlines.simps [simp del]

type_synonym inet_address = nat

record endpoint_dc_rack =
  dc :: string
  rack :: string

record production_snitch_base =
  prop_file_name :: string
  prop_file_size :: nat
  prop_file_contents :: string
  prop_values :: "string \<rightharpoonup> string"
  my_dc :: string
  my_rack :: string
  prefer_local :: bool
  saved_endpoints :: "(inet_address \<rightharpoonup> endpoint_dc_rack) option"

text \<open>The constants of the snitch header, which is not part of the sources at hand:
  the four allowed property keys and the two default names.\<close>

record snitch_constants =
  allowed_property_keys :: "string list"
  default_dc :: string
  default_rack :: string

text \<open>The body of the \<^verbatim>\<open>while\<close> loop, on one line and the values collected so far.\<close>

definition parse_line ::
  "snitch_constants \<Rightarrow> (string \<rightharpoonup> string) \<Rightarrow> string \<Rightarrow> error + (string \<rightharpoonup> string)" where
  "parse_line k pv raw =
     (let line = trim raw in
      if length line = 0 \<or> hd line = CHR ''#'' then Inr pv
      else
        let split_line = split CHR ''='' line in
        if length split_line \<noteq> 2 then Inl bad_property_file_error
        else
          let key = trim (split_line ! 0); val = trim (split_line ! 1) in
          if val = [] \<or> key \<notin> set (allowed_property_keys k) then Inl bad_property_file_error
          else if pv key \<noteq> None then Inl bad_property_file_error
          else Inr (pv(key \<mapsto> val)))"

text \<open>The loop: an exception leaves the values stored so far in the object.\<close>

fun parse_lines ::
  "snitch_constants \<Rightarrow> (string \<rightharpoonup> string) \<Rightarrow> string list \<Rightarrow> (error + unit) \<times> (string \<rightharpoonup> string)" where
  "parse_lines k pv [] = (Inr (), pv)"
| "parse_lines k pv (l # ls) =
     (case parse_line k pv l of
        Inl e \<Rightarrow> (Inl e, pv)
      | Inr pv' \<Rightarrow> parse_lines k pv' ls)"

definition parse_property_file ::
  "snitch_constants \<Rightarrow> production_snitch_base \<Rightarrow> (error + unit) \<times> production_snitch_base" where
  "parse_property_file k sn =
     (case parse_lines k Map.empty (getlines (prop_file_contents sn)) of
        (r, pv) \<Rightarrow> (r, sn\<lparr>prop_values := pv\<rparr>))"

text \<open>\<^verbatim>\<open>load_property_file\<close>: the file system is a map from file names to contents;
  a file that cannot be opened fails the future, otherwise size and contents are stored
  and the contents parsed once.\<close>

definition load_property_file ::
  "snitch_constants \<Rightarrow> (string \<rightharpoonup> string) \<Rightarrow> production_snitch_base \<Rightarrow>
     (error + unit) \<times> production_snitch_base" where
  "load_property_file k fs sn =
     (case fs (prop_file_name sn) of
        None \<Rightarrow> (Inl file_system_error, sn)
      | Some tb \<Rightarrow>
          parse_property_file k
            (sn\<lparr>prop_file_size := length tb, prop_file_contents := take (length tb) tb\<rparr>))"

text \<open>The claim about the parser, in the words of the specification: the lines that
  count are the trimmed lines that are neither empty nor comments; such a line is well formed
  when it holds exactly one \<^verbatim>\<open>=\<close>, a non-empty value after it and an allowed key
  before it.\<close>

definition decls :: "string list \<Rightarrow> string list" where
  "decls ls = filter (\<lambda>l. l \<noteq> [] \<and> hd l \<noteq> CHR ''#'') (map trim ls)"

definition declaration_lines :: "string \<Rightarrow> string list" where
  "declaration_lines c = decls (getlines c)"

definition declared_key :: "string \<Rightarrow> string" where
  "declared_key l = trim (takeWhile (\<lambda>c. c \<noteq> CHR ''='') l)"

definition declared_value :: "string \<Rightarrow> string" where
  "declared_value l = trim (tl (dropWhile (\<lambda>c. c \<noteq> CHR ''='') l))"

definition well_formed_line :: "snitch_constants \<Rightarrow> string \<Rightarrow> bool" where
  "well_formed_line k l =
     (count_list l CHR ''='' = 1 \<and> declared_value l \<noteq> [] \<and>
      declared_key l \<in> set (allowed_property_keys k))"

definition declared_pair :: "string \<Rightarrow> string \<times> string" where
  "declared_pair l = (declared_key l, declared_value l)"

text \<open>The lines \<open>D\<close> are well formed and declare distinct keys, none of which has a value
  in \<open>pv\<close> yet.\<close>

definition lines_ok :: "snitch_constants \<Rightarrow> (string \<rightharpoonup> string) \<Rightarrow> string list \<Rightarrow> bool" where
  "lines_ok k pv D =
     ((\<forall>l \<in> set D. well_formed_line k l) \<and> distinct (map declared_key D) \<and>
      (\<forall>l \<in> set D. pv (declared_key l) = None))"

text \<open>A constants table and a snitch object to evaluate the parser on.\<close>

definition example_constants :: snitch_constants where
  "example_constants =
     \<lparr>allowed_property_keys = [''dc'', ''rack'', ''prefer_local'', ''dc_suffix''],
      default_dc = ''UNKNOWN_DC'', default_rack = ''UNKNOWN_RACK''\<rparr>"

definition example_snitch :: "string \<Rightarrow> production_snitch_base" where
  "example_snitch c =
     \<lparr>prop_file_name = ''cassandra-rackdc.properties'', prop_file_size = length c,
      prop_file_contents = c, prop_values = Map.empty, my_dc = ''dc1'', my_rack = ''r1'',
      prefer_local = False, saved_endpoints = None\<rparr>"

definition example_well_formed :: string where
  "example_well_formed =
     ''dc=a'' @ [CHR 0x0A] @ '' rack = b '' @ [CHR 0x0D, CHR 0x0A] @ ''# x'' @ [CHR 0x0A] @
     [CHR 0x0A]"

definition example_double_declaration :: string where
  "example_double_declaration = example_well_formed @ ''dc=c''"

section \<open>Rack and datacenter lookup of the production snitch\<close>

text \<open>The gossip application states the snitch code names; every other state of the
  enumeration is kept apart by its number.\<close>

datatype application_state = DC | RACK | INTERNAL_IP | OTHER_STATE nat

text \<open>What the snitch asks of its collaborators during a lookup: the gossiper's
  application state of an endpoint, the DC/rack table of the system keyspace, the
  messaging service's public endpoint of an address, and the node's broadcast address.
  None of them is changed by a lookup.\<close>

record collaborators =
  application_state_of :: "inet_address \<Rightarrow> application_state \<rightharpoonup> string"
  load_dc_rack_info :: "inet_address \<rightharpoonup> endpoint_dc_rack"
  get_public_endpoint_for :: "inet_address \<Rightarrow> inet_address"
  get_broadcast_address :: inet_address

text \<open>\<^verbatim>\<open>get_endpoint_info(endpoint, key)\<close>: the value gossip holds, if any.\<close>

definition get_endpoint_info_gossip ::
  "collaborators \<Rightarrow> inet_address \<Rightarrow> application_state \<Rightarrow> string option" where
  "get_endpoint_info_gossip w endpoint key = application_state_of w endpoint key"

text \<open>\<^verbatim>\<open>if (!_saved_endpoints) { _saved_endpoints = ...load_dc_rack_info(); }\<close>\<close>

definition ensure_saved_endpoints ::
  "collaborators \<Rightarrow> production_snitch_base \<Rightarrow> production_snitch_base" where
  "ensure_saved_endpoints w sn =
     (case saved_endpoints sn of
        None \<Rightarrow> sn\<lparr>saved_endpoints := Some (load_dc_rack_info w)\<rparr>
      | Some m \<Rightarrow> sn)"

definition saved_lookup :: "production_snitch_base \<Rightarrow> inet_address \<Rightarrow> endpoint_dc_rack option" where
  "saved_lookup sn endpoint =
     (case saved_endpoints sn of None \<Rightarrow> None | Some m \<Rightarrow> m endpoint)"

text \<open>\<^verbatim>\<open>get_endpoint_info(endpoint, key, default_val)\<close> calls itself on the resolved
  address and has no bound on that recursion, so a call that never returns is the value
  \<open>None\<close>. A call that returns gives the value and the snitch, whose
  \<^verbatim>\<open>_saved_endpoints\<close> may have been loaded on the way.\<close>

partial_function (option) get_endpoint_info ::
  "collaborators \<Rightarrow> production_snitch_base \<Rightarrow> inet_address \<Rightarrow> application_state \<Rightarrow> string \<Rightarrow>
     (string \<times> production_snitch_base) option" where
  "get_endpoint_info w sn endpoint key default_val =
     (case get_endpoint_info_gossip w endpoint key of
        Some val \<Rightarrow> Some (val, sn)
      | None \<Rightarrow>
          (case saved_lookup (ensure_saved_endpoints w sn) endpoint of
             Some it \<Rightarrow>
               Some (if key = RACK then rack it else dc it, ensure_saved_endpoints w sn)
           | None \<Rightarrow>
               if get_public_endpoint_for w endpoint \<noteq> endpoint
               then get_endpoint_info w (ensure_saved_endpoints w sn)
                      (get_public_endpoint_for w endpoint) key default_val
               else Some (default_val, ensure_saved_endpoints w sn)))"

text \<open>The same function with the depth of the recursion counted: \<open>n\<close> is the number of
  retries under a resolved address that are still allowed, and \<open>None\<close> says that they
  did not suffice.\<close>

fun get_endpoint_info_within ::
  "nat \<Rightarrow> collaborators \<Rightarrow> production_snitch_base \<Rightarrow> inet_address \<Rightarrow> application_state \<Rightarrow>
     string \<Rightarrow> (string \<times> production_snitch_base) option" where
  "get_endpoint_info_within n w sn endpoint key default_val =
     (case get_endpoint_info_gossip w endpoint key of
        Some val \<Rightarrow> Some (val, sn)
      | None \<Rightarrow>
          (case saved_lookup (ensure_saved_endpoints w sn) endpoint of
             Some it \<Rightarrow>
               Some (if key = RACK then rack it else dc it, ensure_saved_endpoints w sn)
           | None \<Rightarrow>
               if get_public_endpoint_for w endpoint \<noteq> endpoint
               then (case n of
                       0 \<Rightarrow> None
                     | Suc m \<Rightarrow>
                         get_endpoint_info_within m w (ensure_saved_endpoints w sn)
                           (get_public_endpoint_for w endpoint) key default_val)
               else Some (default_val, ensure_saved_endpoints w sn)))"

declare get_endpoint_info_within.simps [simp del]

definition get_rack ::
  "collaborators \<Rightarrow> snitch_constants \<Rightarrow> production_snitch_base \<Rightarrow> inet_address \<Rightarrow>
     (string \<times> production_snitch_base) option" where
  "get_rack w k sn endpoint =
     (if endpoint = get_broadcast_address w then Some (my_rack sn, sn)
      else get_endpoint_info w sn endpoint RACK (default_rack k))"

definition get_datacenter ::
  "collaborators \<Rightarrow> snitch_constants \<Rightarrow> production_snitch_base \<Rightarrow> inet_address \<Rightarrow>
     (string \<times> production_snitch_base) option" where
  "get_datacenter w k sn endpoint =
     (if endpoint = get_broadcast_address w then Some (my_dc sn, sn)
      else get_endpoint_info w sn endpoint DC (default_dc k))"

text \<open>The endpoints a lookup can settle at once: gossip has the state, or the saved
  table (the one in the snitch, or the one it would load) has the endpoint.\<close>

definition known_endpoint ::
  "collaborators \<Rightarrow> production_snitch_base \<Rightarrow> application_state \<Rightarrow> inet_address \<Rightarrow> bool" where
  "known_endpoint w sn key endpoint =
     (get_endpoint_info_gossip w endpoint key \<noteq> None \<or>
      saved_lookup (ensure_saved_endpoints w sn) endpoint \<noteq> None)"

text \<open>The alias chain of an endpoint ends within \<open>n\<close> resolutions: it reaches a known
  endpoint or an address that resolves to itself.\<close>

fun alias_chain_ends ::
  "collaborators \<Rightarrow> production_snitch_base \<Rightarrow> application_state \<Rightarrow> nat \<Rightarrow> inet_address \<Rightarrow> bool" where
  "alias_chain_ends w sn key 0 endpoint =
     (known_endpoint w sn key endpoint \<or> get_public_endpoint_for w endpoint = endpoint)"
| "alias_chain_ends w sn key (Suc n) endpoint =
     (known_endpoint w sn key endpoint \<or> get_public_endpoint_for w endpoint = endpoint \<or>
      alias_chain_ends w sn key n (get_public_endpoint_for w endpoint))"

text \<open>No endpoint of the alias chain is known, and the chain ends after exactly \<open>n\<close>
  resolutions at an address that resolves to itself.\<close>

fun alias_chain_unknown ::
  "collaborators \<Rightarrow> production_snitch_base \<Rightarrow> application_state \<Rightarrow> nat \<Rightarrow> inet_address \<Rightarrow> bool" where
  "alias_chain_unknown w sn key 0 endpoint =
     (\<not> known_endpoint w sn key endpoint \<and> get_public_endpoint_for w endpoint = endpoint)"
| "alias_chain_unknown w sn key (Suc n) endpoint =
     (\<not> known_endpoint w sn key endpoint \<and> get_public_endpoint_for w endpoint \<noteq> endpoint \<and>
      alias_chain_unknown w sn key n (get_public_endpoint_for w endpoint))"

text \<open>Collaborators in which the addresses 1 and 2 are each other's public endpoint and
  neither gossip nor the system table knows anybody; and collaborators in which 1 resolves
  to 2, 2 to 3, and the system table knows 3.\<close>

definition cyclic_aliases :: collaborators where
  "cyclic_aliases =
     \<lparr>application_state_of = (\<lambda>endpoint. Map.empty),
      load_dc_rack_info = Map.empty,
      get_public_endpoint_for = (\<lambda>a. if a = 1 then 2 else if a = 2 then 1 else a),
      get_broadcast_address = 0\<rparr>"

definition chained_aliases :: collaborators where
  "chained_aliases =
     \<lparr>application_state_of = (\<lambda>endpoint. Map.empty),
      load_dc_rack_info = [3 \<mapsto> \<lparr>dc = ''dc3'', rack = ''r3''\<rparr>],
      get_public_endpoint_for = (\<lambda>a. if a = 1 then 2 else if a = 2 then 3 else a),
      get_broadcast_address = 0\<rparr>"

text \<open>Collaborators in which 1 resolves to 2, 2 to itself, and nobody is known.\<close>

definition dangling_aliases :: collaborators where
  "dangling_aliases =
     \<lparr>application_state_of = (\<lambda>endpoint. Map.empty),
      load_dc_rack_info = Map.empty,
      get_public_endpoint_for = (\<lambda>a. if a = 1 then 2 else a),
      get_broadcast_address = 0\<rparr>"

section \<open>The preferred-address handler\<close>

text \<open>Modelled from the spec: the messaging service is not part of the sources at hand.
  Per shard it holds the cache of preferred addresses (the cached transport route of an
  endpoint) and the open RPC clients, keyed by the address of the peer.\<close>

record messaging_service =
  preferred_ip_cache :: "inet_address \<rightharpoonup> inet_address"
  clients :: "inet_address set"

text \<open>Modelled from the spec: \<^verbatim>\<open>get_preferred_ip\<close> reads the cached route of an endpoint,
  which is the endpoint's own address as long as nothing is cached for it.\<close>

definition get_preferred_ip :: "messaging_service \<Rightarrow> inet_address \<Rightarrow> inet_address" where
  "get_preferred_ip ms ep = (case preferred_ip_cache ms ep of None \<Rightarrow> ep | Some ip \<Rightarrow> ip)"

text \<open>Modelled from the spec: \<^verbatim>\<open>cache_preferred_ip\<close> replaces the cached route of an
  endpoint.\<close>

definition cache_preferred_ip ::
  "inet_address \<Rightarrow> inet_address \<Rightarrow> messaging_service \<Rightarrow> messaging_service" where
  "cache_preferred_ip ep ip ms = ms\<lparr>preferred_ip_cache := (preferred_ip_cache ms)(ep \<mapsto> ip)\<rparr>"

text \<open>Modelled from the spec: \<^verbatim>\<open>remove_rpc_client\<close> drops the open connections to an
  endpoint.\<close>

definition remove_rpc_client :: "inet_address \<Rightarrow> messaging_service \<Rightarrow> messaging_service" where
  "remove_rpc_client ep ms = ms\<lparr>clients := clients ms - {ep}\<rparr>"

text \<open>What the handler does to the outside, in the order in which it is done.\<close>

datatype effect =
  Update_preferred_ip inet_address inet_address
| Cache_preferred_ip nat inet_address inet_address
| Remove_rpc_client nat inet_address

text \<open>The node as the handler sees it: the snitch, the datacenter name the helper was
  built with, the preferred addresses in the system table, the messaging service of every
  shard, the shard the handler runs on, and the effects so far.\<close>

record node =
  snitch :: production_snitch_base
  local_dc :: string
  system_preferred_ips :: "inet_address \<rightharpoonup> inet_address"
  shards :: "messaging_service list"
  this_shard :: nat
  effects :: "effect list"

text \<open>Modelled from the spec: \<^verbatim>\<open>db::system_keyspace::update_preferred_ip\<close> persists the
  address mapping.\<close>

definition update_preferred_ip :: "inet_address \<Rightarrow> inet_address \<Rightarrow> node \<Rightarrow> node" where
  "update_preferred_ip ep ip st =
     st\<lparr>system_preferred_ips := (system_preferred_ips st)(ep \<mapsto> ip),
        effects := effects st @ [Update_preferred_ip ep ip]\<rparr>"

text \<open>The body of the lambda handed to \<^verbatim>\<open>invoke_on_all\<close>, on the messaging service of
  one shard, and what it does on the shard \<open>i\<close>.\<close>

definition reconnect_on_shard ::
  "inet_address \<Rightarrow> inet_address \<Rightarrow> messaging_service \<Rightarrow> messaging_service" where
  "reconnect_on_shard public_address local_address local_ms =
     remove_rpc_client public_address (cache_preferred_ip public_address local_address local_ms)"

definition reconnect_effects :: "inet_address \<Rightarrow> inet_address \<Rightarrow> nat \<Rightarrow> effect list" where
  "reconnect_effects public_address local_address i =
     [Cache_preferred_ip i public_address local_address, Remove_rpc_client i public_address]"

text \<open>\<^verbatim>\<open>co_await ms.container().invoke_on_all(...)\<close>: the lambda runs on every shard,
  and the caller goes on once all of them are done. The effects are listed shard by shard;
  the shards do not share state, and no property below depends on the order among them.\<close>

definition invoke_on_all ::
  "(messaging_service \<Rightarrow> messaging_service) \<Rightarrow> (nat \<Rightarrow> effect list) \<Rightarrow> node \<Rightarrow> node" where
  "invoke_on_all f fx st =
     st\<lparr>shards := map f (shards st),
        effects := effects st @ concat (map fx [0 ..< length (shards st)])\<rparr>"

text \<open>\<^verbatim>\<open>reconnectable_snitch_helper::reconnect(public_address, local_address)\<close>. The
  datacenter lookup may load the saved endpoints of the snitch, and may not return.\<close>

definition reconnect ::
  "collaborators \<Rightarrow> snitch_constants \<Rightarrow> inet_address \<Rightarrow> inet_address \<Rightarrow> node \<Rightarrow> node option" where
  "reconnect w k public_address local_address st =
     (case get_datacenter w k (snitch st) public_address of
        None \<Rightarrow> None
      | Some (datacenter, sn) \<Rightarrow>
          if datacenter = local_dc st \<and>
             get_preferred_ip (shards st ! this_shard st) public_address \<noteq> local_address
          then Some (invoke_on_all (reconnect_on_shard public_address local_address)
                       (reconnect_effects public_address local_address)
                       (update_preferred_ip public_address local_address (st\<lparr>snitch := sn\<rparr>)))
          else Some (st\<lparr>snitch := sn\<rparr>))"

text \<open>The two steps the handler takes when it applies a change.\<close>

definition apply_reconnect :: "inet_address \<Rightarrow> inet_address \<Rightarrow> node \<Rightarrow> node" where
  "apply_reconnect p l st =
     invoke_on_all (reconnect_on_shard p l) (reconnect_effects p l) (update_preferred_ip p l st)"

text \<open>What the replay claim compares: the system table's preferred addresses and, for
  every shard, the cache and the open connections.\<close>

definition routes :: "node \<Rightarrow> (inet_address \<rightharpoonup> inet_address) \<times> messaging_service list" where
  "routes st = (system_preferred_ips st, shards st)"

text \<open>A node of two shards with a connection to the peer 7 open on both, in the
  datacenter of that peer according to gossip.\<close>

definition example_gossip :: collaborators where
  "example_gossip =
     \<lparr>application_state_of = (\<lambda>endpoint. if endpoint = 7 then [DC \<mapsto> ''dc1''] else Map.empty),
      load_dc_rack_info = Map.empty,
      get_public_endpoint_for = (\<lambda>a. a),
      get_broadcast_address = 0\<rparr>"

definition example_node :: node where
  "example_node =
     \<lparr>snitch = example_snitch [], local_dc = ''dc1'', system_preferred_ips = Map.empty,
      shards = [\<lparr>preferred_ip_cache = Map.empty, clients = {7, 8}\<rparr>,
                \<lparr>preferred_ip_cache = Map.empty, clients = {7}\<rparr>],
      this_shard = 0, effects = []\<rparr>"

section \<open>The repair service\<close>

text \<open>Of the repair service the sources at hand hold the class declaration only: the
  members and the signatures. The data below follows the declaration; the bodies of
  the member functions are modelled from the specification, each one marked.\<close>

type_synonym UUID = nat
type_synonym token_range = "int \<times> int"
type_synonym time_point = int

record shard_config =
  shard :: "32 word"
  shard_count :: "32 word"
  ignore_msb :: "32 word"

text \<open>A repair session, with the attributes \<^verbatim>\<open>insert_repair_meta\<close> is given.\<close>

record repair_meta =
  from_node :: inet_address
  src_cpu_id :: "32 word"
  repair_meta_id :: "32 word"
  session_range :: token_range
  algo :: nat
  max_row_buf_size :: "64 word"
  seed :: "64 word"
  master_node_shard_config :: shard_config
  schema_version :: UUID
  reason :: nat

text \<open>\<^verbatim>\<open>node_repair_meta_id\<close>: the peer and the session id.\<close>

type_synonym node_repair_meta_id = "inet_address \<times> 32 word"

datatype repair_error = DuplicateSession | SessionMismatch | NotFound

text \<open>The members \<^verbatim>\<open>_repair_metas\<close>, \<^verbatim>\<open>_next_repair_meta_id\<close> (initially 0, used on
  shard 0 only) and \<^verbatim>\<open>_stopped\<close> of one instance of the service.\<close>

record repair_service =
  repair_metas :: "node_repair_meta_id \<rightharpoonup> repair_meta"
  next_repair_meta_id :: "32 word"
  stopped :: bool

definition repair_meta_map :: "repair_service \<Rightarrow> node_repair_meta_id \<rightharpoonup> repair_meta" where
  "repair_meta_map rs = repair_metas rs"

subsection \<open>Session registry\<close>

text \<open>The key of a session in the registry.\<close>

definition session_key :: "repair_meta \<Rightarrow> node_repair_meta_id" where
  "session_key rm = (from_node rm, repair_meta_id rm)"

text \<open>Modelled from the spec: the body of \<^verbatim>\<open>insert_repair_meta\<close> is not in the sources.
  ``\<open>insert(peer, session_id, metadata)\<close> fails with \<open>DuplicateSession\<close> if the key
  already exists''; otherwise the session is registered under its key.\<close>

definition insert_repair_meta ::
  "repair_service \<Rightarrow> repair_meta \<Rightarrow> (repair_error + unit) \<times> repair_service" where
  "insert_repair_meta rs rm =
     (if repair_meta_map rs (session_key rm) \<noteq> None
      then (Inl DuplicateSession, rs)
      else (Inr (), rs\<lparr>repair_metas := (repair_metas rs)(session_key rm \<mapsto> rm)\<rparr>))"

text \<open>Insert attempts that run one after the other, with the outcome of each. On a shard
  nothing interleaves with an insert, so concurrent attempts are such a sequence in some
  order.\<close>

fun insert_attempts ::
  "repair_service \<Rightarrow> repair_meta list \<Rightarrow> (repair_error + unit) list \<times> repair_service" where
  "insert_attempts rs [] = ([], rs)"
| "insert_attempts rs (rm # rms) =
     (case insert_repair_meta rs rm of
        (r, rs') \<Rightarrow> (case insert_attempts rs' rms of (res, rs'') \<Rightarrow> (r # res, rs'')))"

text \<open>Modelled from the spec: the body of \<^verbatim>\<open>remove_repair_meta(from)\<close> is not in the
  sources. ``\<open>remove_all(peer)\<close> purges every session for a peer''.\<close>

definition remove_repair_meta_from ::
  "repair_service \<Rightarrow> inet_address \<Rightarrow> (repair_error + unit) \<times> repair_service" where
  "remove_repair_meta_from rs peer =
     (Inr (),
      rs\<lparr>repair_metas := (\<lambda>key. if fst key = peer then None else repair_metas rs key)\<rparr>)"

subsection \<open>Session ids\<close>

text \<open>The service runs one instance per shard.\<close>

type_synonym sharded_repair_service = "nat \<Rightarrow> repair_service"

text \<open>Modelled from the spec: the body of \<^verbatim>\<open>get_next_repair_meta_id\<close> is not in the
  sources. The counter is ``owned by a single designated shard and accessed by others
  only through an explicit request'': whichever shard asks, the counter of shard 0 is
  read and advanced. The counter is the \<^verbatim>\<open>uint32_t\<close> of the declaration.\<close>

definition get_next_repair_meta_id ::
  "sharded_repair_service \<Rightarrow> 32 word \<times> sharded_repair_service" where
  "get_next_repair_meta_id svc =
     (next_repair_meta_id (svc 0),
      svc(0 := (svc 0)\<lparr>next_repair_meta_id := next_repair_meta_id (svc 0) + 1\<rparr>))"

text \<open>The service after \<open>n\<close> allocations, and the ids these allocations return.\<close>

fun after_allocations :: "nat \<Rightarrow> sharded_repair_service \<Rightarrow> sharded_repair_service" where
  "after_allocations 0 svc = svc"
| "after_allocations (Suc n) svc = after_allocations n (snd (get_next_repair_meta_id svc))"

fun allocated_ids :: "nat \<Rightarrow> sharded_repair_service \<Rightarrow> 32 word list" where
  "allocated_ids 0 svc = []"
| "allocated_ids (Suc n) svc =
     fst (get_next_repair_meta_id svc) # allocated_ids n (snd (get_next_repair_meta_id svc))"

text \<open>A freshly started service: no sessions, the counter at 0 on every shard.\<close>

definition started_service :: sharded_repair_service where
  "started_service = (\<lambda>shard. \<lparr>repair_metas = Map.empty, next_repair_meta_id = 0, stopped = False\<rparr>)"

subsection \<open>Memory budget\<close>

text \<open>Modelled from the spec: the semaphore \<^verbatim>\<open>_memory_sem\<close> is declared in the sources,
  its operations and its use are not. The budget has the configured maximum
  \<^verbatim>\<open>_max_repair_memory\<close>, the bytes still available, the guards that are outstanding
  (session and bytes) and the requests that wait (session and bytes, oldest first).\<close>

record memory_budget =
  max_repair_memory :: nat
  available :: nat
  guards :: "(nat \<times> nat) list"
  waiting :: "(nat \<times> nat) list"

definition memory_sem :: "nat \<Rightarrow> memory_budget" where
  "memory_sem max_memory =
     \<lparr>max_repair_memory = max_memory, available = max_memory, guards = [], waiting = []\<rparr>"

definition outstanding :: "memory_budget \<Rightarrow> nat" where
  "outstanding b = sum_list (map snd (guards b))"

text \<open>Modelled from the spec: a waiting request goes on as soon as its bytes are
  available; requests are served oldest first.\<close>

fun admit :: "memory_budget \<Rightarrow> (nat \<times> nat) list \<Rightarrow> memory_budget" where
  "admit b [] = b\<lparr>waiting := []\<rparr>"
| "admit b ((s, n) # ws) =
     (if n \<le> available b
      then admit (b\<lparr>available := available b - n, guards := guards b @ [(s, n)]\<rparr>) ws
      else b\<lparr>waiting := (s, n) # ws\<rparr>)"

text \<open>Modelled from the spec: ``\<open>acquire(bytes)\<close> blocks until \<open>bytes\<close> of budget are
  available, then returns a scoped guard''.\<close>

definition acquire :: "nat \<Rightarrow> nat \<Rightarrow> memory_budget \<Rightarrow> memory_budget" where
  "acquire s n b = admit b (waiting b @ [(s, n)])"

text \<open>Modelled from the spec: the guards of a session ``release the exact amount on
  destruction''; the bytes go back and waiting requests are looked at again.\<close>

definition release :: "nat \<Rightarrow> memory_budget \<Rightarrow> memory_budget" where
  "release s b =
     admit (b\<lparr>available := available b + sum_list (map snd (filter (\<lambda>g. fst g = s) (guards b))),
              guards := filter (\<lambda>g. fst g \<noteq> s) (guards b)\<rparr>)
       (waiting b)"

text \<open>Modelled from the spec: ``if the owning session aborts while waiting, the wait
  must be interrupted promptly and no budget leaks'': the requests of the session leave
  the queue, and unwinding destroys the guards it holds.\<close>

definition abort :: "nat \<Rightarrow> memory_budget \<Rightarrow> memory_budget" where
  "abort s b = release s (b\<lparr>waiting := filter (\<lambda>r. fst r \<noteq> s) (waiting b)\<rparr>)"

datatype memory_op = Acquire nat nat | Release nat | Abort nat

fun memory_step :: "memory_budget \<Rightarrow> memory_op \<Rightarrow> memory_budget" where
  "memory_step b (Acquire s n) = acquire s n b"
| "memory_step b (Release s) = release s b"
| "memory_step b (Abort s) = abort s b"

definition memory_run :: "memory_op list \<Rightarrow> memory_budget \<Rightarrow> memory_budget" where
  "memory_run ops b = foldl memory_step b ops"

fun session_of :: "memory_op \<Rightarrow> nat" where
  "session_of (Acquire s n) = s"
| "session_of (Release s) = s"
| "session_of (Abort s) = s"

text \<open>All sessions have terminated: nobody holds a guard and nobody waits.\<close>

definition all_terminated :: "memory_budget \<Rightarrow> bool" where
  "all_terminated b = (guards b = [] \<and> waiting b = [])"

text \<open>The budget is conserved: what is available and what is outstanding add up to
  the maximum. The sessions of a budget are those that hold a guard or wait.\<close>

definition conserved :: "memory_budget \<Rightarrow> bool" where
  "conserved b = (available b + outstanding b = max_repair_memory b)"

definition sessions_in :: "memory_budget \<Rightarrow> nat set" where
  "sessions_in b = fst ` set (guards b) \<union> fst ` set (waiting b)"

text \<open>A run with a waiting request, an abort and a release.\<close>

definition example_ops :: "memory_op list" where
  "example_ops = [Acquire 1 60, Acquire 2 50, Acquire 3 30, Abort 2, Release 1]"

subsection \<open>Repair history\<close>

text \<open>The class \<^verbatim>\<open>repair_history\<close> of the declaration; \<^verbatim>\<open>repair_time\<close> starts at
  \<^verbatim>\<open>gc_clock::time_point::max()\<close>, the largest 64-bit count.\<close>

record repair_history =
  finished_ranges :: "UUID \<Rightarrow> token_range \<rightharpoonup> nat"
  repair_time :: time_point

definition time_point_max :: time_point where
  "time_point_max = 2 ^ 63 - 1"

definition new_repair_history :: repair_history where
  "new_repair_history = \<lparr>finished_ranges = (\<lambda>table_id. Map.empty), repair_time = time_point_max\<rparr>"

text \<open>Modelled from the spec: the history store keeps, for every table and range, the
  time of the last successful repair (``table identifier \<open>\<rightarrow>\<close> (range \<open>\<rightarrow>\<close>
  last-successful-repair logical time)''), next to the bookkeeping per repair round of the
  member \<^verbatim>\<open>_finished_ranges_history\<close>.\<close>

record history_store =
  recorded_time :: "UUID \<times> token_range \<rightharpoonup> time_point"
  finished_ranges_history :: "UUID \<rightharpoonup> repair_history"

text \<open>Modelled from the spec: the body of \<^verbatim>\<open>update_history\<close> is not in the sources.
  It ``records that \<open>range\<close> finished as of \<open>time\<close> for the current repair round;
  accumulates per-round state in memory keyed by round id'', ``returns the previous
  recorded time'', and resolves updates of one range ``by keeping the maximum time''.\<close>

definition update_history ::
  "history_store \<Rightarrow> UUID \<Rightarrow> UUID \<Rightarrow> token_range \<Rightarrow> time_point \<Rightarrow>
     time_point option \<times> history_store" where
  "update_history hs repair_id table_id range' repair_time' =
     (let previous = recorded_time hs (table_id, range');
          rh = (case finished_ranges_history hs repair_id of
                  None \<Rightarrow> new_repair_history | Some h \<Rightarrow> h);
          finished = (case finished_ranges rh table_id range' of None \<Rightarrow> 0 | Some c \<Rightarrow> c)
      in (previous,
          hs\<lparr>recorded_time := (recorded_time hs)((table_id, range') \<mapsto>
                (case previous of None \<Rightarrow> repair_time' | Some t \<Rightarrow> max t repair_time')),
             finished_ranges_history := (finished_ranges_history hs)(repair_id \<mapsto>
                rh\<lparr>finished_ranges := (finished_ranges rh)
                      (table_id := (finished_ranges rh table_id)(range' \<mapsto> Suc finished))\<rparr>)\<rparr>))"

text \<open>Modelled from the spec: \<^verbatim>\<open>cleanup_history\<close> ``discards in-memory round-scoped
  bookkeeping after the round concludes''.\<close>

definition cleanup_history :: "history_store \<Rightarrow> UUID \<Rightarrow> history_store" where
  "cleanup_history hs repair_id =
     hs\<lparr>finished_ranges_history := (finished_ranges_history hs)(repair_id := None)\<rparr>"

text \<open>A run of calls on the history store.\<close>

datatype history_call = Update_history UUID UUID token_range time_point | Cleanup_history UUID

fun history_step :: "history_store \<Rightarrow> history_call \<Rightarrow> history_store" where
  "history_step hs (Update_history repair_id table_id range' t) =
     snd (update_history hs repair_id table_id range' t)"
| "history_step hs (Cleanup_history repair_id) = cleanup_history hs repair_id"

text \<open>The order on recorded times: nothing recorded is below everything.\<close>

definition recorded_le :: "time_point option \<Rightarrow> time_point option \<Rightarrow> bool" where
  "recorded_le a b =
     (case a of None \<Rightarrow> True | Some s \<Rightarrow> (case b of None \<Rightarrow> False | Some t \<Rightarrow> s \<le> t))"

text \<open>Example data: a session of peer 7, and an empty history store.\<close>

definition example_meta :: repair_meta where
  "example_meta =
     \<lparr>from_node = 7, src_cpu_id = 0, repair_meta_id = 3, session_range = (0, 100), algo = 0,
      max_row_buf_size = 1024, seed = 42,
      master_node_shard_config = \<lparr>shard = 0, shard_count = 2, ignore_msb = 12\<rparr>,
      schema_version = 1, reason = 0\<rparr>"

definition empty_history :: history_store where
  "empty_history = \<lparr>recorded_time = Map.empty, finished_ranges_history = Map.empty\<rparr>"

section \<open>Properties of the property file parser\<close>

lemma count_list_takeWhile_dropWhile:
  "count_list s d = count_list (dropWhile (\<lambda>c. c \<noteq> d) s) d"
  by (induction s) auto

lemma split_no_delimiter:
  assumes "d \<notin> set s"
  shows "split d s = [s]"
proof -
  have dw: "dropWhile (\<lambda>c. c \<noteq> d) s = []" using assms by auto
  have tw: "takeWhile (\<lambda>c. c \<noteq> d) s = s" using assms by (auto simp: takeWhile_eq_all_conv)
  show ?thesis by (subst split.simps) (simp only: dw tw list.case)
qed

lemma split_at_delimiter:
  assumes "dropWhile (\<lambda>c. c \<noteq> d) s = x # rest"
  shows "split d s = takeWhile (\<lambda>c. c \<noteq> d) s # split d rest"
  by (subst split.simps) (simp only: assms list.case)

lemma count_list_at_delimiter:
  assumes "dropWhile (\<lambda>c. c \<noteq> d) s = x # rest"
  shows "count_list s d = Suc (count_list rest d)"
proof -
  have "x = d" using hd_dropWhile [of "\<lambda>c. c \<noteq> d" s] assms by auto
  then show ?thesis
    using count_list_takeWhile_dropWhile [of s d] assms by simp
qed

lemma length_split: "length (split d s) = Suc (count_list s d)"
proof (induction d s rule: split.induct)
  case (1 d s)
  show ?case
  proof (cases "dropWhile (\<lambda>c. c \<noteq> d) s")
    case Nil
    then have "d \<notin> set s" by auto
    then show ?thesis by (simp add: split_no_delimiter count_list_0_iff)
  next
    case (Cons x rest)
    show ?thesis
      using "1.IH" [OF Cons] by (simp add: split_at_delimiter [OF Cons] count_list_at_delimiter [OF Cons])
  qed
qed

lemma split_two:
  assumes "count_list s d = 1"
  shows "split d s = [takeWhile (\<lambda>c. c \<noteq> d) s, tl (dropWhile (\<lambda>c. c \<noteq> d) s)]"
proof (cases "dropWhile (\<lambda>c. c \<noteq> d) s")
  case Nil
  then have "d \<notin> set s" by auto
  then have "count_list s d = 0" by (simp add: count_list_0_iff)
  with assms show ?thesis by simp
next
  case (Cons x rest)
  from assms have "count_list rest d = 0"
    by (simp add: count_list_at_delimiter [OF Cons])
  then have "d \<notin> set rest" by (simp add: count_list_0_iff)
  then show ?thesis
    by (simp add: split_at_delimiter [OF Cons] split_no_delimiter Cons)
qed

lemma parse_line_skip:
  "trim raw = [] \<or> hd (trim raw) = CHR ''#'' \<Longrightarrow> parse_line k pv raw = Inr pv"
  by (auto simp: parse_line_def Let_def)

lemma parse_line_decl:
  assumes "trim raw \<noteq> []" "hd (trim raw) \<noteq> CHR ''#''"
  shows "parse_line k pv raw =
     (if well_formed_line k (trim raw) \<and> pv (declared_key (trim raw)) = None
      then Inr (pv(declared_key (trim raw) \<mapsto> declared_value (trim raw)))
      else Inl bad_property_file_error)"
proof (cases "count_list (trim raw) CHR ''='' = 1")
  case True
  from split_two [OF True] assms show ?thesis
    by (auto simp: parse_line_def Let_def well_formed_line_def declared_key_def declared_value_def True)
next
  case False
  then have "length (split CHR ''='' (trim raw)) \<noteq> 2"
    by (simp add: length_split)
  with assms False show ?thesis
    by (simp add: parse_line_def Let_def well_formed_line_def)
qed


lemma decls_Cons:
  "decls (l # ls) =
     (if trim l = [] \<or> hd (trim l) = CHR ''#'' then decls ls else trim l # decls ls)"
  by (simp add: decls_def)

lemma lines_ok_Cons:
  "lines_ok k pv (t # D) \<longleftrightarrow>
     well_formed_line k t \<and> pv (declared_key t) = None \<and>
     lines_ok k (pv(declared_key t \<mapsto> v)) D"
proof -
  have fresh: "declared_key t \<notin> declared_key ` set D \<longleftrightarrow>
      (\<forall>l \<in> set D. declared_key l \<noteq> declared_key t)"
  proof -
    have "declared_key t \<notin> declared_key ` set D \<longleftrightarrow>
        (\<forall>l \<in> set D. declared_key t \<noteq> declared_key l)"
      by (simp add: image_iff)
    also have "\<dots> \<longleftrightarrow> (\<forall>l \<in> set D. declared_key l \<noteq> declared_key t)"
      by auto
    finally show ?thesis .
  qed
  have upd: "(\<forall>l \<in> set D. (pv(declared_key t \<mapsto> v)) (declared_key l) = None) \<longleftrightarrow>
      (\<forall>l \<in> set D. declared_key l \<noteq> declared_key t) \<and>
      (\<forall>l \<in> set D. pv (declared_key l) = None)"
    by auto
  show ?thesis
    unfolding lines_ok_def upd by (simp add: fresh) blast
qed

lemma parse_lines_skip:
  "trim l = [] \<or> hd (trim l) = CHR ''#'' \<Longrightarrow> parse_lines k pv (l # ls) = parse_lines k pv ls"
  by (simp add: parse_line_skip)

lemma parse_lines_decl:
  "trim l \<noteq> [] \<Longrightarrow> hd (trim l) \<noteq> CHR ''#'' \<Longrightarrow>
   parse_lines k pv (l # ls) =
     (if well_formed_line k (trim l) \<and> pv (declared_key (trim l)) = None
      then parse_lines k (pv(declared_key (trim l) \<mapsto> declared_value (trim l))) ls
      else (Inl bad_property_file_error, pv))"
  by (simp add: parse_line_decl)

lemma parse_lines_error_kind:
  "fst (parse_lines k pv ls) = Inr () \<or> fst (parse_lines k pv ls) = Inl bad_property_file_error"
proof (induction ls arbitrary: pv)
  case Nil
  show ?case by simp
next
  case (Cons l ls)
  show ?case
  proof (cases "parse_line k pv l")
    case (Inl e)
    then have "e = bad_property_file_error"
      by (simp add: parse_line_def Let_def split: if_splits)
    with Inl show ?thesis by simp
  next
    case (Inr pv')
    then show ?thesis using Cons [of pv'] by simp
  qed
qed

lemma parse_lines_ok_iff:
  "fst (parse_lines k pv ls) = Inr () \<longleftrightarrow> lines_ok k pv (decls ls)"
proof (induction ls arbitrary: pv)
  case Nil
  show ?case by (simp add: decls_def lines_ok_def)
next
  case (Cons l ls)
  show ?case
  proof (cases "trim l = [] \<or> hd (trim l) = CHR ''#''")
    case True
    then show ?thesis
      using Cons [of pv] by (simp only: parse_lines_skip decls_Cons if_True)
  next
    case False
    define pv' where "pv' = pv(declared_key (trim l) \<mapsto> declared_value (trim l))"
    have step: "parse_lines k pv (l # ls) =
        (if well_formed_line k (trim l) \<and> pv (declared_key (trim l)) = None
         then parse_lines k pv' ls else (Inl bad_property_file_error, pv))"
      unfolding pv'_def using False by (intro parse_lines_decl) simp_all
    have ok: "lines_ok k pv (trim l # decls ls) \<longleftrightarrow>
        well_formed_line k (trim l) \<and> pv (declared_key (trim l)) = None \<and>
        lines_ok k pv' (decls ls)"
      unfolding pv'_def by (rule lines_ok_Cons)
    have d: "decls (l # ls) = trim l # decls ls"
      using False by (simp add: decls_Cons)
    show ?thesis
      using Cons [of pv'] by (simp only: step ok d) simp
  qed
qed

lemma parse_lines_values:
  "lines_ok k pv (decls ls) \<Longrightarrow>
   snd (parse_lines k pv ls) = pv ++ map_of (map declared_pair (decls ls))"
proof (induction ls arbitrary: pv)
  case Nil
  show ?case by (simp add: decls_def)
next
  case (Cons l ls)
  show ?case
  proof (cases "trim l = [] \<or> hd (trim l) = CHR ''#''")
    case True
    then have "decls (l # ls) = decls ls" by (simp add: decls_Cons)
    then show ?thesis
      using Cons.IH [of pv] Cons.prems True by (simp only: parse_lines_skip)
  next
    case False
    let ?key = "declared_key (trim l)"
    let ?val = "declared_value (trim l)"
    define pv' where "pv' = pv(?key \<mapsto> ?val)"
    have d: "decls (l # ls) = trim l # decls ls"
      using False by (simp add: decls_Cons)
    from Cons.prems have all: "lines_ok k pv (trim l # decls ls)"
      by (simp only: d)
    then have ok: "lines_ok k pv' (decls ls)"
      and wf: "well_formed_line k (trim l)" "pv ?key = None"
      unfolding pv'_def by (simp_all only: lines_ok_Cons [where v = ?val])
    have step: "parse_lines k pv (l # ls) = parse_lines k pv' ls"
      unfolding pv'_def using False wf by (subst parse_lines_decl) simp_all
    from all have "?key \<notin> set (map declared_key (decls ls))"
      by (simp add: lines_ok_def)
    then have "map_of (map declared_pair (decls ls)) ?key = None"
      by (simp add: map_of_eq_None_iff declared_pair_def image_iff)
    then have "pv' ++ map_of (map declared_pair (decls ls)) =
        pv ++ map_of (map declared_pair (trim l # decls ls))"
      unfolding pv'_def
      by (auto simp: map_add_def declared_pair_def fun_eq_iff split: option.splits)
    then show ?thesis
      using Cons.IH [OF ok] by (simp only: step d)
  qed
qed


lemma decls_getlines: "decls (getlines c) = declaration_lines c"
  by (simp add: declaration_lines_def)

lemma lines_ok_empty:
  "lines_ok k Map.empty D \<longleftrightarrow>
     (\<forall>l \<in> set D. well_formed_line k l) \<and> distinct (map declared_key D)"
  by (simp add: lines_ok_def)

lemma load_property_file_opened:
  "fs (prop_file_name sn) = Some c \<Longrightarrow>
   load_property_file k fs sn =
     parse_property_file k (sn\<lparr>prop_file_size := length c, prop_file_contents := c\<rparr>)"
  by (simp add: load_property_file_def)

text \<open>
  C7. \<^verbatim>\<open>parse_property_file\<close> raises \<^verbatim>\<open>bad_property_file_error\<close> exactly when some
  line that is neither empty nor a comment (after trimming) is not of the form key, one
  \<^verbatim>\<open>=\<close>, non-empty value with an allowed key, or when a key is declared twice. When it
  does not raise it returns normally, and the stored values are exactly the declared pairs.
  \<^verbatim>\<open>load_property_file\<close>, the caller, parses the contents it has read once and hands the
  outcome on as it is: the error is neither caught nor retried.
\<close>

theorem parse_property_file_bad_format:
  "(fst (parse_property_file k sn) = Inl bad_property_file_error \<longleftrightarrow>
      (\<exists>l \<in> set (declaration_lines (prop_file_contents sn)). \<not> well_formed_line k l) \<or>
      \<not> distinct (map declared_key (declaration_lines (prop_file_contents sn)))) \<and>
   (fst (parse_property_file k sn) \<noteq> Inl bad_property_file_error \<longrightarrow>
      fst (parse_property_file k sn) = Inr () \<and>
      prop_values (snd (parse_property_file k sn)) =
        map_of (map declared_pair (declaration_lines (prop_file_contents sn)))) \<and>
   (\<forall>c. fs (prop_file_name sn) = Some c \<longrightarrow>
      load_property_file k fs sn =
        parse_property_file k (sn\<lparr>prop_file_size := length c, prop_file_contents := c\<rparr>))"
proof -
  let ?ls = "getlines (prop_file_contents sn)"
  let ?D = "declaration_lines (prop_file_contents sn)"
  have res: "fst (parse_property_file k sn) = fst (parse_lines k Map.empty ?ls)"
    and vals: "prop_values (snd (parse_property_file k sn)) = snd (parse_lines k Map.empty ?ls)"
    by (simp_all add: parse_property_file_def split: prod.splits)
  have kind: "fst (parse_lines k Map.empty ?ls) = Inr () \<or>
      fst (parse_lines k Map.empty ?ls) = Inl bad_property_file_error"
    by (rule parse_lines_error_kind)
  have ok: "fst (parse_lines k Map.empty ?ls) = Inr () \<longleftrightarrow>
      (\<forall>l \<in> set ?D. well_formed_line k l) \<and> distinct (map declared_key ?D)"
    by (simp only: parse_lines_ok_iff decls_getlines lines_ok_empty)
  have a: "fst (parse_property_file k sn) = Inl bad_property_file_error \<longleftrightarrow>
      (\<exists>l \<in> set ?D. \<not> well_formed_line k l) \<or> \<not> distinct (map declared_key ?D)"
    using kind ok unfolding res by auto
  have b: "fst (parse_property_file k sn) \<noteq> Inl bad_property_file_error \<longrightarrow>
      fst (parse_property_file k sn) = Inr () \<and>
      prop_values (snd (parse_property_file k sn)) = map_of (map declared_pair ?D)"
  proof
    assume "fst (parse_property_file k sn) \<noteq> Inl bad_property_file_error"
    with kind have r: "fst (parse_lines k Map.empty ?ls) = Inr ()" unfolding res by simp
    then have "lines_ok k Map.empty (decls ?ls)" by (simp only: parse_lines_ok_iff)
    then have "snd (parse_lines k Map.empty ?ls) = Map.empty ++ map_of (map declared_pair (decls ?ls))"
      by (rule parse_lines_values)
    then show "fst (parse_property_file k sn) = Inr () \<and>
      prop_values (snd (parse_property_file k sn)) = map_of (map declared_pair ?D)"
      using r by (simp add: res vals decls_getlines)
  qed
  have c: "\<forall>c. fs (prop_file_name sn) = Some c \<longrightarrow>
      load_property_file k fs sn =
        parse_property_file k (sn\<lparr>prop_file_size := length c, prop_file_contents := c\<rparr>)"
    by (simp add: load_property_file_opened)
  from a b c show ?thesis by blast
qed


theorem parse_property_file_bad_format_witness:
  "fst (parse_property_file example_constants (example_snitch example_double_declaration)) =
     Inl bad_property_file_error \<and>
   ((\<exists>l \<in> set (declaration_lines example_double_declaration).
       \<not> well_formed_line example_constants l) \<or>
    \<not> distinct (map declared_key (declaration_lines example_double_declaration))) \<and>
   fst (parse_property_file example_constants (example_snitch example_well_formed)) = Inr () \<and>
   prop_values (snd (parse_property_file example_constants (example_snitch example_well_formed))) =
     map_of (map declared_pair (declaration_lines example_well_formed)) \<and>
   prop_values (snd (parse_property_file example_constants (example_snitch example_well_formed)))
     ''rack'' = Some ''b''"
proof -
  have bad: "fst (parse_property_file example_constants (example_snitch example_double_declaration)) =
      Inl bad_property_file_error"
    by code_simp
  have good: "fst (parse_property_file example_constants (example_snitch example_well_formed)) \<noteq>
      Inl bad_property_file_error"
    by code_simp
  have rack: "prop_values (snd (parse_property_file example_constants
      (example_snitch example_well_formed))) ''rack'' = Some ''b''"
    by code_simp
  have c1: "prop_file_contents (example_snitch example_double_declaration) =
      example_double_declaration"
    and c2: "prop_file_contents (example_snitch example_well_formed) = example_well_formed"
    by (simp_all add: example_snitch_def)
  show ?thesis
    using parse_property_file_bad_format
      [of example_constants "example_snitch example_double_declaration" Map.empty]
      parse_property_file_bad_format
      [of example_constants "example_snitch example_well_formed" Map.empty]
      bad good rack
    unfolding c1 c2 by blast
qed
section \<open>Properties of the endpoint lookup\<close>

lemma ensure_saved_endpoints_idem [simp]:
  "ensure_saved_endpoints w (ensure_saved_endpoints w sn) = ensure_saved_endpoints w sn"
  by (simp add: ensure_saved_endpoints_def split: option.splits)

lemma known_endpoint_ensure [simp]:
  "known_endpoint w (ensure_saved_endpoints w sn) key e = known_endpoint w sn key e"
  by (simp add: known_endpoint_def)

lemma alias_chain_ends_ensure [simp]:
  "alias_chain_ends w (ensure_saved_endpoints w sn) key n e = alias_chain_ends w sn key n e"
  by (induction n arbitrary: e) simp_all

lemma alias_chain_unknown_ensure [simp]:
  "alias_chain_unknown w (ensure_saved_endpoints w sn) key n e = alias_chain_unknown w sn key n e"
  by (induction n arbitrary: e) simp_all

lemma lookup_gossip:
  assumes "get_endpoint_info_gossip w e key = Some v"
  shows "get_endpoint_info w sn e key d = Some (v, sn)"
    and "get_endpoint_info_within n w sn e key d = Some (v, sn)"
  using assms
  by (simp_all add: get_endpoint_info.simps [of w sn e] get_endpoint_info_within.simps [of n w sn e])

lemma lookup_saved:
  assumes "get_endpoint_info_gossip w e key = None"
    and "saved_lookup (ensure_saved_endpoints w sn) e = Some it"
  shows "get_endpoint_info w sn e key d =
      Some (if key = RACK then rack it else dc it, ensure_saved_endpoints w sn)"
    and "get_endpoint_info_within n w sn e key d =
      Some (if key = RACK then rack it else dc it, ensure_saved_endpoints w sn)"
  using assms
  by (simp_all add: get_endpoint_info.simps [of w sn e] get_endpoint_info_within.simps [of n w sn e])

lemma lookup_default:
  assumes "get_endpoint_info_gossip w e key = None"
    and "saved_lookup (ensure_saved_endpoints w sn) e = None"
    and "get_public_endpoint_for w e = e"
  shows "get_endpoint_info w sn e key d = Some (d, ensure_saved_endpoints w sn)"
    and "get_endpoint_info_within n w sn e key d = Some (d, ensure_saved_endpoints w sn)"
  using assms
  by (simp_all add: get_endpoint_info.simps [of w sn e] get_endpoint_info_within.simps [of n w sn e])

lemma lookup_retry:
  assumes "get_endpoint_info_gossip w e key = None"
    and "saved_lookup (ensure_saved_endpoints w sn) e = None"
    and "get_public_endpoint_for w e \<noteq> e"
  shows "get_endpoint_info w sn e key d =
      get_endpoint_info w (ensure_saved_endpoints w sn) (get_public_endpoint_for w e) key d"
    and "get_endpoint_info_within (Suc n) w sn e key d =
      get_endpoint_info_within n w (ensure_saved_endpoints w sn) (get_public_endpoint_for w e) key d"
    and "get_endpoint_info_within 0 w sn e key d = None"
  using assms
  by (simp_all add: get_endpoint_info.simps [of w sn e]
      get_endpoint_info_within.simps [of _ w sn e])

lemma lookup_cases:
  obtains (gossip) v where "get_endpoint_info_gossip w e key = Some v"
  | (saved) it where "get_endpoint_info_gossip w e key = None"
      "saved_lookup (ensure_saved_endpoints w sn) e = Some it"
  | (default) "get_endpoint_info_gossip w e key = None"
      "saved_lookup (ensure_saved_endpoints w sn) e = None" "get_public_endpoint_for w e = e"
  | (retry) "get_endpoint_info_gossip w e key = None"
      "saved_lookup (ensure_saved_endpoints w sn) e = None" "get_public_endpoint_for w e \<noteq> e"
  by (cases "get_endpoint_info_gossip w e key";
      cases "saved_lookup (ensure_saved_endpoints w sn) e") auto

lemma within_sound:
  "get_endpoint_info_within n w sn e key d = Some r \<Longrightarrow> get_endpoint_info w sn e key d = Some r"
proof (induction n arbitrary: sn e)
  case 0
  then show ?case
    by (cases rule: lookup_cases [where w = w and e = e and key = key and sn = sn])
      (simp_all add: lookup_gossip lookup_saved lookup_default lookup_retry)
next
  case (Suc n)
  from Suc.prems show ?case
  proof (cases rule: lookup_cases [where w = w and e = e and key = key and sn = sn])
    case retry
    with Suc.prems Suc.IH show ?thesis by (simp add: lookup_retry)
  qed (simp_all add: lookup_gossip lookup_saved lookup_default)
qed

lemma within_complete:
  assumes "get_endpoint_info w sn e key d = Some r"
  shows "\<exists>n. get_endpoint_info_within n w sn e key d = Some r"
  using assms
proof (induction w sn e key d r rule: get_endpoint_info.raw_induct [rotated 1, consumes 1])
  case (1 f w sn e key d r)
  show ?case
  proof (cases rule: lookup_cases [where w = w and e = e and key = key and sn = sn])
    case retry
    with 1(2) have "f w (ensure_saved_endpoints w sn) (get_public_endpoint_for w e) key d = Some r"
      by simp
    from 1(1) [OF this] obtain m where
      "get_endpoint_info_within m w (ensure_saved_endpoints w sn) (get_public_endpoint_for w e) key d = Some r"
      by blast
    with retry have "get_endpoint_info_within (Suc m) w sn e key d = Some r"
      by (simp add: lookup_retry)
    then show ?thesis by blast
  next
    case (gossip v)
    with 1(2) have "get_endpoint_info_within 0 w sn e key d = Some r"
      by (simp add: lookup_gossip)
    then show ?thesis by blast
  next
    case (saved it)
    with 1(2) have "get_endpoint_info_within 0 w sn e key d = Some r"
      by (simp add: lookup_saved)
    then show ?thesis by blast
  next
    case default
    with 1(2) have "get_endpoint_info_within 0 w sn e key d = Some r"
      by (simp add: lookup_default)
    then show ?thesis by blast
  qed
qed

lemma within_returns:
  "alias_chain_ends w sn key n e \<Longrightarrow> get_endpoint_info_within n w sn e key d \<noteq> None"
proof (induction n arbitrary: sn e)
  case 0
  then show ?case
    by (cases rule: lookup_cases [where w = w and e = e and key = key and sn = sn])
      (simp_all add: lookup_gossip lookup_saved lookup_default known_endpoint_def)
next
  case (Suc n)
  show ?case
  proof (cases rule: lookup_cases [where w = w and e = e and key = key and sn = sn])
    case retry
    with Suc.prems have "alias_chain_ends w (ensure_saved_endpoints w sn) key n (get_public_endpoint_for w e)"
      by (simp add: known_endpoint_def)
    from Suc.IH [OF this] retry show ?thesis by (simp add: lookup_retry)
  qed (simp_all add: lookup_gossip lookup_saved lookup_default)
qed

lemma within_unknown:
  "alias_chain_unknown w sn key n e \<Longrightarrow>
   get_endpoint_info_within n w sn e key d = Some (d, ensure_saved_endpoints w sn)"
proof (induction n arbitrary: sn e)
  case 0
  then show ?case
    by (simp add: lookup_default known_endpoint_def)
next
  case (Suc n)
  then have "alias_chain_unknown w (ensure_saved_endpoints w sn) key n (get_public_endpoint_for w e)"
    by simp
  from Suc.IH [OF this] Suc.prems show ?case
    by (simp add: lookup_retry known_endpoint_def)
qed

lemma cyclic_within:
  assumes "saved_endpoints sn = None \<or> saved_endpoints sn = Some Map.empty"
    and "e = 1 \<or> e = 2"
  shows "get_endpoint_info_within n cyclic_aliases sn e key d = None"
  using assms
proof (induction n arbitrary: sn e)
  case 0
  then have "get_endpoint_info_gossip cyclic_aliases e key = None"
    "saved_lookup (ensure_saved_endpoints cyclic_aliases sn) e = None"
    "get_public_endpoint_for cyclic_aliases e \<noteq> e"
    by (auto simp: cyclic_aliases_def get_endpoint_info_gossip_def saved_lookup_def
        ensure_saved_endpoints_def)
  then show ?case by (rule lookup_retry(3))
next
  case (Suc n)
  then have c: "get_endpoint_info_gossip cyclic_aliases e key = None"
    "saved_lookup (ensure_saved_endpoints cyclic_aliases sn) e = None"
    "get_public_endpoint_for cyclic_aliases e \<noteq> e"
    by (auto simp: cyclic_aliases_def get_endpoint_info_gossip_def saved_lookup_def
        ensure_saved_endpoints_def)
  from Suc.prems have s: "saved_endpoints (ensure_saved_endpoints cyclic_aliases sn) = Some Map.empty"
    by (auto simp: ensure_saved_endpoints_def cyclic_aliases_def)
  from Suc.prems have e: "get_public_endpoint_for cyclic_aliases e = 1 \<or>
      get_public_endpoint_for cyclic_aliases e = 2"
    by (auto simp: cyclic_aliases_def)
  show ?case
    using Suc.IH [OF disjI2 [OF s] e] by (simp add: lookup_retry(2) [OF c])
qed

lemma get_endpoint_info_within_eq:
  assumes "alias_chain_ends w sn key n e"
  shows "get_endpoint_info w sn e key d = get_endpoint_info_within n w sn e key d"
proof -
  from within_returns [OF assms] obtain r where "get_endpoint_info_within n w sn e key d = Some r"
    by blast
  then show ?thesis by (simp add: within_sound)
qed

lemma within_ends:
  "get_endpoint_info_within n w sn e key d = Some r \<Longrightarrow> alias_chain_ends w sn key n e"
proof (induction n arbitrary: sn e)
  case 0
  then show ?case
    by (cases rule: lookup_cases [where w = w and e = e and key = key and sn = sn])
      (simp_all add: lookup_retry known_endpoint_def)
next
  case (Suc n)
  show ?case
  proof (cases rule: lookup_cases [where w = w and e = e and key = key and sn = sn])
    case retry
    with Suc.prems have "get_endpoint_info_within n w (ensure_saved_endpoints w sn)
        (get_public_endpoint_for w e) key d = Some r"
      by (simp add: lookup_retry)
    from Suc.IH [OF this] show ?thesis by simp
  qed (simp_all add: known_endpoint_def)
qed

text \<open>
  C1, as the code has it. The lookup has no guard on the depth of its recursion. It
  returns exactly when the alias chain of the queried endpoint ends: within some number
  \<open>n\<close> of resolutions the chain reaches an endpoint that gossip or the saved table
  knows, or an address that resolves to itself; then \<open>n\<close> retries suffice.
\<close>

theorem get_endpoint_info_returns_when_chain_ends:
  "(get_endpoint_info w sn endpoint key default_val \<noteq> None \<longleftrightarrow>
      (\<exists>n. alias_chain_ends w sn key n endpoint)) \<and>
   (alias_chain_ends w sn key n endpoint \<longrightarrow>
      get_endpoint_info w sn endpoint key default_val \<noteq> None \<and>
      get_endpoint_info w sn endpoint key default_val =
        get_endpoint_info_within n w sn endpoint key default_val)"
proof -
  have ends: "\<exists>m. alias_chain_ends w sn key m endpoint"
    if "get_endpoint_info w sn endpoint key default_val \<noteq> None"
  proof -
    from that obtain r where "get_endpoint_info w sn endpoint key default_val = Some r"
      by blast
    from within_complete [OF this] obtain m where
      "get_endpoint_info_within m w sn endpoint key default_val = Some r" by blast
    then have "alias_chain_ends w sn key m endpoint" by (rule within_ends)
    then show ?thesis by blast
  qed
  have returns: "get_endpoint_info w sn endpoint key default_val \<noteq> None \<and>
      get_endpoint_info w sn endpoint key default_val =
        get_endpoint_info_within m w sn endpoint key default_val"
    if "alias_chain_ends w sn key m endpoint" for m
    using within_returns [OF that, of default_val]
      get_endpoint_info_within_eq [OF that, of default_val]
    by simp
  from ends returns show ?thesis by blast
qed

theorem get_endpoint_info_returns_when_chain_ends_witness:
  "alias_chain_ends chained_aliases (example_snitch []) RACK 2 1 \<and>
   get_endpoint_info chained_aliases (example_snitch []) 1 RACK ''UNKNOWN_RACK'' =
     Some (''r3'', (example_snitch [])\<lparr>saved_endpoints := Some (load_dc_rack_info chained_aliases)\<rparr>)"
proof -
  have h: "alias_chain_ends chained_aliases (example_snitch []) RACK 2 1"
    by code_simp
  have v: "get_endpoint_info_within 2 chained_aliases (example_snitch []) 1 RACK ''UNKNOWN_RACK'' =
      Some (''r3'', (example_snitch [])\<lparr>saved_endpoints := Some (load_dc_rack_info chained_aliases)\<rparr>)"
    by (simp add: get_endpoint_info_within.simps numeral_2_eq_2 chained_aliases_def
        example_snitch_def get_endpoint_info_gossip_def saved_lookup_def
        ensure_saved_endpoints_def)
  from get_endpoint_info_returns_when_chain_ends
    [of chained_aliases "example_snitch []" 1 RACK "''UNKNOWN_RACK''" 2] h v
  show ?thesis by simp
qed

text \<open>
  C1, as the specification states it, fails: when two addresses unknown to gossip and
  to the system table are each other's public endpoint, the lookup of either never
  returns.
\<close>

theorem get_endpoint_info_cyclic_aliases_diverges:
  "get_endpoint_info cyclic_aliases (example_snitch []) 1 RACK ''UNKNOWN_RACK'' = None"
proof (rule ccontr)
  assume "get_endpoint_info cyclic_aliases (example_snitch []) 1 RACK ''UNKNOWN_RACK'' \<noteq> None"
  then obtain r where
    "get_endpoint_info cyclic_aliases (example_snitch []) 1 RACK ''UNKNOWN_RACK'' = Some r"
    by blast
  from within_complete [OF this] obtain n where
    "get_endpoint_info_within n cyclic_aliases (example_snitch []) 1 RACK ''UNKNOWN_RACK'' = Some r"
    by blast
  moreover have "get_endpoint_info_within n cyclic_aliases (example_snitch []) 1 RACK ''UNKNOWN_RACK'' = None"
    by (rule cyclic_within) (simp_all add: example_snitch_def)
  ultimately show False by simp
qed

text \<open>
  C10. For the node's own broadcast address \<^verbatim>\<open>get_rack\<close> and \<^verbatim>\<open>get_datacenter\<close>
  return the configured rack and datacenter, whatever the collaborators hold and without
  touching the snitch. When the alias chain of an endpoint ends, both return. When no
  endpoint of that chain is known to gossip or to the saved table, they return
  \<^verbatim>\<open>default_rack\<close> and \<^verbatim>\<open>default_dc\<close> (and the saved table has been loaded).
\<close>

theorem get_rack_get_datacenter_total:
  "get_rack w k sn (get_broadcast_address w) = Some (my_rack sn, sn) \<and>
   get_datacenter w k sn (get_broadcast_address w) = Some (my_dc sn, sn) \<and>
   (alias_chain_ends w sn RACK n endpoint \<longrightarrow> get_rack w k sn endpoint \<noteq> None) \<and>
   (alias_chain_ends w sn DC n endpoint \<longrightarrow> get_datacenter w k sn endpoint \<noteq> None) \<and>
   (endpoint \<noteq> get_broadcast_address w \<and> alias_chain_unknown w sn RACK n endpoint \<longrightarrow>
      get_rack w k sn endpoint = Some (default_rack k, ensure_saved_endpoints w sn)) \<and>
   (endpoint \<noteq> get_broadcast_address w \<and> alias_chain_unknown w sn DC n endpoint \<longrightarrow>
      get_datacenter w k sn endpoint = Some (default_dc k, ensure_saved_endpoints w sn))"
proof -
  have own: "get_rack w k sn (get_broadcast_address w) = Some (my_rack sn, sn)"
    "get_datacenter w k sn (get_broadcast_address w) = Some (my_dc sn, sn)"
    by (simp_all add: get_rack_def get_datacenter_def)
  have total: "get_rack w k sn endpoint \<noteq> None" if "alias_chain_ends w sn RACK n endpoint"
    using that within_returns [OF that, of "default_rack k"]
    by (simp add: get_rack_def get_endpoint_info_within_eq)
  have total': "get_datacenter w k sn endpoint \<noteq> None" if "alias_chain_ends w sn DC n endpoint"
    using that within_returns [OF that, of "default_dc k"]
    by (simp add: get_datacenter_def get_endpoint_info_within_eq)
  have dflt: "get_rack w k sn endpoint = Some (default_rack k, ensure_saved_endpoints w sn)"
    if "endpoint \<noteq> get_broadcast_address w" "alias_chain_unknown w sn RACK n endpoint"
    using that within_sound [OF within_unknown [OF that(2), of "default_rack k"]]
    by (simp add: get_rack_def)
  have dflt': "get_datacenter w k sn endpoint = Some (default_dc k, ensure_saved_endpoints w sn)"
    if "endpoint \<noteq> get_broadcast_address w" "alias_chain_unknown w sn DC n endpoint"
    using that within_sound [OF within_unknown [OF that(2), of "default_dc k"]]
    by (simp add: get_datacenter_def)
  from own total total' dflt dflt' show ?thesis by blast
qed

theorem get_rack_get_datacenter_total_witness:
  "alias_chain_ends dangling_aliases (example_snitch []) RACK 1 1 \<and>
   alias_chain_ends dangling_aliases (example_snitch []) DC 1 1 \<and>
   1 \<noteq> get_broadcast_address dangling_aliases \<and>
   alias_chain_unknown dangling_aliases (example_snitch []) RACK 1 1 \<and>
   alias_chain_unknown dangling_aliases (example_snitch []) DC 1 1 \<and>
   get_rack dangling_aliases example_constants (example_snitch []) 0 =
     Some (''r1'', example_snitch []) \<and>
   get_datacenter dangling_aliases example_constants (example_snitch []) 0 =
     Some (''dc1'', example_snitch []) \<and>
   get_rack dangling_aliases example_constants (example_snitch []) 1 =
     Some (''UNKNOWN_RACK'', (example_snitch [])\<lparr>saved_endpoints := Some Map.empty\<rparr>) \<and>
   get_datacenter dangling_aliases example_constants (example_snitch []) 1 =
     Some (''UNKNOWN_DC'', (example_snitch [])\<lparr>saved_endpoints := Some Map.empty\<rparr>)"
proof -
  have e: "alias_chain_ends dangling_aliases (example_snitch []) RACK 1 1"
    "alias_chain_ends dangling_aliases (example_snitch []) DC 1 1"
    by (simp_all add: dangling_aliases_def)
  have b: "1 \<noteq> get_broadcast_address dangling_aliases"
    "get_broadcast_address dangling_aliases = 0"
    by (simp_all add: dangling_aliases_def)
  have u: "alias_chain_unknown dangling_aliases (example_snitch []) RACK 1 1"
    "alias_chain_unknown dangling_aliases (example_snitch []) DC 1 1"
    by (simp_all add: dangling_aliases_def known_endpoint_def get_endpoint_info_gossip_def
        saved_lookup_def ensure_saved_endpoints_def example_snitch_def)
  have s: "ensure_saved_endpoints dangling_aliases (example_snitch []) =
      (example_snitch [])\<lparr>saved_endpoints := Some Map.empty\<rparr>"
    "my_rack (example_snitch []) = ''r1''" "my_dc (example_snitch []) = ''dc1''"
    "default_rack example_constants = ''UNKNOWN_RACK''"
    "default_dc example_constants = ''UNKNOWN_DC''"
    by (simp_all add: ensure_saved_endpoints_def dangling_aliases_def example_snitch_def
        example_constants_def)
  from get_rack_get_datacenter_total
    [of dangling_aliases example_constants "example_snitch []" 1 1] e b u
  show ?thesis unfolding s b(2) by blast
qed

section \<open>Properties of the preferred-address handler\<close>

lemma within_snitch:
  "get_endpoint_info_within n w sn e key d = Some (v, sn') \<Longrightarrow>
   sn' = sn \<or> sn' = ensure_saved_endpoints w sn"
proof (induction n arbitrary: sn e)
  case 0
  then show ?case
    by (cases rule: lookup_cases [where w = w and e = e and key = key and sn = sn])
      (simp_all add: lookup_gossip lookup_saved lookup_default lookup_retry)
next
  case (Suc n)
  from Suc.prems show ?case
  proof (cases rule: lookup_cases [where w = w and e = e and key = key and sn = sn])
    case retry
    with Suc.prems Suc.IH [of "ensure_saved_endpoints w sn" "get_public_endpoint_for w e"]
    show ?thesis by (simp add: lookup_retry)
  qed (simp_all add: lookup_gossip lookup_saved lookup_default)
qed

lemma within_stable:
  "get_endpoint_info_within n w sn e key d = Some (v, sn') \<Longrightarrow>
   get_endpoint_info_within n w sn' e key d = Some (v, sn')"
proof (induction n arbitrary: sn e)
  case 0
  then show ?case
    by (cases rule: lookup_cases [where w = w and e = e and key = key and sn = sn])
      (auto simp: lookup_gossip lookup_saved lookup_default lookup_retry)
next
  case (Suc n)
  from Suc.prems show ?case
  proof (cases rule: lookup_cases [where w = w and e = e and key = key and sn = sn])
    case retry
    let ?sn = "ensure_saved_endpoints w sn"
    from retry Suc.prems have r: "get_endpoint_info_within n w ?sn (get_public_endpoint_for w e) key d = Some (v, sn')"
      by (simp add: lookup_retry)
    from within_snitch [OF r] have sn': "sn' = ?sn" by simp
    from Suc.IH [OF r] retry show ?thesis
      unfolding sn' by (simp add: lookup_retry)
  qed (auto simp: lookup_gossip lookup_saved lookup_default)
qed

lemma get_endpoint_info_stable:
  assumes "get_endpoint_info w sn e key d = Some (v, sn')"
  shows "get_endpoint_info w sn' e key d = Some (v, sn')"
proof -
  from within_complete [OF assms] obtain n where
    "get_endpoint_info_within n w sn e key d = Some (v, sn')" by blast
  then have "get_endpoint_info_within n w sn' e key d = Some (v, sn')" by (rule within_stable)
  then show ?thesis by (rule within_sound)
qed

lemma get_datacenter_stable:
  assumes "get_datacenter w k sn e = Some (v, sn')"
  shows "get_datacenter w k sn' e = Some (v, sn')"
proof (cases "e = get_broadcast_address w")
  case True
  with assms show ?thesis by (auto simp: get_datacenter_def)
next
  case False
  with assms show ?thesis by (simp add: get_datacenter_def get_endpoint_info_stable)
qed

lemma reconnect_on_shard_idem:
  "reconnect_on_shard p l (reconnect_on_shard p l ms) = reconnect_on_shard p l ms"
  by (simp add: reconnect_on_shard_def remove_rpc_client_def cache_preferred_ip_def)

lemma routes_apply_reconnect:
  "routes (apply_reconnect p l st) =
     ((system_preferred_ips st)(p \<mapsto> l), map (reconnect_on_shard p l) (shards st))"
  by (simp add: routes_def apply_reconnect_def invoke_on_all_def update_preferred_ip_def)

lemma routes_apply_twice:
  "routes (apply_reconnect p l ((apply_reconnect p l st)\<lparr>snitch := sn\<rparr>)) =
     routes (apply_reconnect p l st)"
  by (simp add: routes_def apply_reconnect_def invoke_on_all_def update_preferred_ip_def
      reconnect_on_shard_idem)

lemma reconnect_unfold:
  assumes "get_datacenter w k (snitch st) p = Some (v, sn)"
  shows "reconnect w k p l st =
     (if v = local_dc st \<and> get_preferred_ip (shards st ! this_shard st) p \<noteq> l
      then Some (apply_reconnect p l (st\<lparr>snitch := sn\<rparr>)) else Some (st\<lparr>snitch := sn\<rparr>))"
  using assms by (simp add: reconnect_def apply_reconnect_def)

lemma reconnect_diverges:
  assumes "get_datacenter w k (snitch st) p = None"
  shows "reconnect w k p l st = None"
  using assms by (simp add: reconnect_def)

lemma apply_reconnect_fields [simp]:
  "snitch (apply_reconnect p l st) = snitch st"
  "local_dc (apply_reconnect p l st) = local_dc st"
  "this_shard (apply_reconnect p l st) = this_shard st"
  by (simp_all add: apply_reconnect_def invoke_on_all_def update_preferred_ip_def)

lemma example_datacenter:
  "get_datacenter example_gossip example_constants (example_snitch []) 7 =
     Some (''dc1'', example_snitch [])"
proof -
  have "get_endpoint_info_gossip example_gossip 7 DC = Some ''dc1''"
    by (simp add: get_endpoint_info_gossip_def example_gossip_def)
  then show ?thesis
    by (simp add: get_datacenter_def lookup_gossip example_gossip_def)
qed

lemma example_reconnect:
  "reconnect example_gossip example_constants 7 9 example_node =
     Some (apply_reconnect 7 9 example_node)"
proof -
  have dc: "get_datacenter example_gossip example_constants (snitch example_node) 7 =
      Some (''dc1'', example_snitch [])"
    using example_datacenter by (simp add: example_node_def)
  have "example_node\<lparr>snitch := example_snitch []\<rparr> = example_node"
    by (simp add: example_node_def)
  then show ?thesis
    unfolding reconnect_unfold [OF dc]
    by (simp add: example_node_def get_preferred_ip_def)
qed

lemma effects_apply_reconnect:
  "effects (apply_reconnect p l st) =
     effects st @ Update_preferred_ip p l #
       concat (map (reconnect_effects p l) [0 ..< length (shards st)])"
  by (simp add: apply_reconnect_def invoke_on_all_def update_preferred_ip_def)

lemma shards_apply_reconnect:
  "shards (apply_reconnect p l st) = map (reconnect_on_shard p l) (shards st)"
  "system_preferred_ips (apply_reconnect p l st) = (system_preferred_ips st)(p \<mapsto> l)"
  by (simp_all add: apply_reconnect_def invoke_on_all_def update_preferred_ip_def)

lemma reconnect_on_shard_route:
  "preferred_ip_cache (reconnect_on_shard p l ms) p = Some l"
  "p \<notin> clients (reconnect_on_shard p l ms)"
  by (simp_all add: reconnect_on_shard_def remove_rpc_client_def cache_preferred_ip_def)

text \<open>
  C2. Replaying the handler changes nothing further: running \<^verbatim>\<open>reconnect\<close> twice in
  succession leaves the preferred addresses of the system table and, on every shard, the
  cache of preferred addresses and the open connections as one run leaves them. (When
  the datacenter lookup does not return, neither run does.)
\<close>

theorem reconnect_idempotent:
  "map_option routes (Option.bind (reconnect w k public_address local_address st)
       (reconnect w k public_address local_address)) =
   map_option routes (reconnect w k public_address local_address st)"
proof (cases "get_datacenter w k (snitch st) public_address")
  case None
  then show ?thesis by (simp add: reconnect_diverges)
next
  case (Some r)
  obtain v sn where r: "r = (v, sn)" by (cases r)
  from Some r have dc: "get_datacenter w k (snitch st) public_address = Some (v, sn)" by simp
  from get_datacenter_stable [OF dc]
  have dc': "get_datacenter w k sn public_address = Some (v, sn)" .
  let ?st = "st\<lparr>snitch := sn\<rparr>"
  show ?thesis
  proof (cases "v = local_dc st \<and>
      get_preferred_ip (shards st ! this_shard st) public_address \<noteq> local_address")
    case True
    let ?st' = "apply_reconnect public_address local_address ?st"
    have first: "reconnect w k public_address local_address st = Some ?st'"
      using True by (simp add: reconnect_unfold [OF dc])
    have "get_datacenter w k (snitch ?st') public_address = Some (v, sn)"
      using dc' by simp
    from reconnect_unfold [OF this, of local_address]
    have "map_option routes (reconnect w k public_address local_address ?st') =
        Some (routes ?st')"
      by (simp add: routes_apply_twice) (simp add: routes_def)
    with first show ?thesis by simp
  next
    case False
    have first: "reconnect w k public_address local_address st = Some ?st"
      using False by (auto simp: reconnect_unfold [OF dc])
    have "get_datacenter w k (snitch ?st) public_address = Some (v, sn)"
      using dc' by simp
    from reconnect_unfold [OF this, of local_address] False
    have "reconnect w k public_address local_address ?st = Some ?st"
      by auto
    with first show ?thesis by simp
  qed
qed


theorem reconnect_idempotent_witness:
  "reconnect example_gossip example_constants 7 9 example_node \<noteq> None \<and>
   map_option routes (Option.bind (reconnect example_gossip example_constants 7 9 example_node)
       (reconnect example_gossip example_constants 7 9)) =
   Some ([7 \<mapsto> 9],
     [\<lparr>preferred_ip_cache = [7 \<mapsto> 9], clients = {8}\<rparr>,
      \<lparr>preferred_ip_cache = [7 \<mapsto> 9], clients = {}\<rparr>])"
proof -
  have "routes (apply_reconnect 7 9 example_node) =
      ([7 \<mapsto> 9],
       [\<lparr>preferred_ip_cache = [7 \<mapsto> 9], clients = {8}\<rparr>,
        \<lparr>preferred_ip_cache = [7 \<mapsto> 9], clients = {}\<rparr>])"
    by (simp add: routes_apply_reconnect example_node_def reconnect_on_shard_def
        remove_rpc_client_def cache_preferred_ip_def)
  with reconnect_idempotent [of example_gossip example_constants 7 9 example_node]
  show ?thesis by (simp add: example_reconnect)
qed

lemma set_shard_effects:
  "set (concat (map (reconnect_effects p l) [0 ..< n])) =
     (\<Union>i \<in> {..< n}. {Cache_preferred_ip i p l, Remove_rpc_client i p})"
  by (auto simp: reconnect_effects_def)

text \<open>
  C8. When the handler applies a change (the peer is in the local datacenter and its
  cached route differs), it returns, and what it did comes after the earlier effects in
  this order: first the address mapping is persisted, then come the cache updates and
  connection resets, those of every shard and nothing else. When it returns, the system
  table holds the mapping, and every shard has the new route cached and no connection to
  the peer.
\<close>

theorem reconnect_persists_then_invalidates:
  assumes "get_datacenter w k (snitch st) public_address = Some (datacenter, sn)"
    and "datacenter = local_dc st"
    and "get_preferred_ip (shards st ! this_shard st) public_address \<noteq> local_address"
  shows "\<exists>st' rest. reconnect w k public_address local_address st = Some st' \<and>
     effects st' = effects st @ Update_preferred_ip public_address local_address # rest \<and>
     set rest = (\<Union>i \<in> {..< length (shards st)}.
        {Cache_preferred_ip i public_address local_address, Remove_rpc_client i public_address}) \<and>
     system_preferred_ips st' public_address = Some local_address \<and>
     length (shards st') = length (shards st) \<and>
     (\<forall>i < length (shards st).
        preferred_ip_cache (shards st' ! i) public_address = Some local_address \<and>
        public_address \<notin> clients (shards st' ! i))"
proof -
  let ?st' = "apply_reconnect public_address local_address (st\<lparr>snitch := sn\<rparr>)"
  let ?rest = "concat (map (reconnect_effects public_address local_address)
      [0 ..< length (shards st)])"
  have run: "reconnect w k public_address local_address st = Some ?st'"
    using assms(2,3) by (simp add: reconnect_unfold [OF assms(1)])
  have fx: "effects ?st' = effects st @ Update_preferred_ip public_address local_address # ?rest"
    by (simp add: effects_apply_reconnect)
  have cover: "set ?rest = (\<Union>i \<in> {..< length (shards st)}.
      {Cache_preferred_ip i public_address local_address, Remove_rpc_client i public_address})"
    by (rule set_shard_effects)
  have tbl: "system_preferred_ips ?st' public_address = Some local_address"
    and len: "length (shards ?st') = length (shards st)"
    by (simp_all add: shards_apply_reconnect)
  have each: "\<forall>i < length (shards st).
      preferred_ip_cache (shards ?st' ! i) public_address = Some local_address \<and>
      public_address \<notin> clients (shards ?st' ! i)"
    by (simp add: shards_apply_reconnect reconnect_on_shard_route)
  from run fx cover tbl len each show ?thesis by blast
qed

theorem reconnect_persists_then_invalidates_witness:
  "get_datacenter example_gossip example_constants (snitch example_node) 7 =
     Some (''dc1'', example_snitch []) \<and>
   ''dc1'' = local_dc example_node \<and>
   get_preferred_ip (shards example_node ! this_shard example_node) 7 \<noteq> 9 \<and>
   (\<exists>st' rest. reconnect example_gossip example_constants 7 9 example_node = Some st' \<and>
      effects st' = Update_preferred_ip 7 9 # rest \<and>
      set rest = {Cache_preferred_ip 0 7 9, Remove_rpc_client 0 7,
                  Cache_preferred_ip 1 7 9, Remove_rpc_client 1 7} \<and>
      system_preferred_ips st' 7 = Some 9 \<and>
      preferred_ip_cache (shards st' ! 0) 7 = Some 9 \<and> 7 \<notin> clients (shards st' ! 0) \<and>
      preferred_ip_cache (shards st' ! 1) 7 = Some 9 \<and> 7 \<notin> clients (shards st' ! 1))"
proof -
  have dc: "get_datacenter example_gossip example_constants (snitch example_node) 7 =
      Some (''dc1'', example_snitch [])"
    using example_datacenter by (simp add: example_node_def)
  have l: "''dc1'' = local_dc example_node"
    and g: "get_preferred_ip (shards example_node ! this_shard example_node) 7 \<noteq> 9"
    by (simp_all add: example_node_def get_preferred_ip_def)
  have n: "length (shards example_node) = 2" "effects example_node = []"
    by (simp_all add: example_node_def)
  have u: "(\<Union>i \<in> {..< 2::nat}. {Cache_preferred_ip i 7 9, Remove_rpc_client i 7}) =
      {Cache_preferred_ip 0 7 9, Remove_rpc_client 0 7,
       Cache_preferred_ip 1 7 9, Remove_rpc_client 1 7}"
    by (auto simp: lessThan_Suc numeral_2_eq_2)
  from reconnect_persists_then_invalidates [OF dc l g]
  obtain st' rest where r: "reconnect example_gossip example_constants 7 9 example_node = Some st'"
    "effects st' = Update_preferred_ip 7 9 # rest"
    "set rest = {Cache_preferred_ip 0 7 9, Remove_rpc_client 0 7,
       Cache_preferred_ip 1 7 9, Remove_rpc_client 1 7}"
    "system_preferred_ips st' 7 = Some 9"
    "\<forall>i < 2. preferred_ip_cache (shards st' ! i) 7 = Some 9 \<and> 7 \<notin> clients (shards st' ! i)"
    unfolding n u by auto
  from r(5) have "preferred_ip_cache (shards st' ! 0) 7 = Some 9 \<and> 7 \<notin> clients (shards st' ! 0)"
    "preferred_ip_cache (shards st' ! 1) 7 = Some 9 \<and> 7 \<notin> clients (shards st' ! 1)"
    by simp_all
  with r dc l g show ?thesis by blast
qed

section \<open>Properties of the repair service\<close>

lemma insert_present:
  "repair_meta_map rs (session_key rm) \<noteq> None \<Longrightarrow>
   insert_repair_meta rs rm = (Inl DuplicateSession, rs)"
  by (simp add: insert_repair_meta_def)

lemma insert_free:
  "repair_meta_map rs (session_key rm) = None \<Longrightarrow>
   insert_repair_meta rs rm =
     (Inr (), rs\<lparr>repair_metas := (repair_metas rs)(session_key rm \<mapsto> rm)\<rparr>)"
  by (simp add: insert_repair_meta_def)

lemma insert_attempts_present:
  assumes "repair_meta_map rs key \<noteq> None" "\<forall>rm \<in> set rms. session_key rm = key"
  shows "insert_attempts rs rms = (replicate (length rms) (Inl DuplicateSession), rs)"
  using assms
proof (induction rms)
  case Nil
  show ?case by simp
next
  case (Cons rm rms)
  then have "insert_repair_meta rs rm = (Inl DuplicateSession, rs)"
    by (simp add: insert_present)
  with Cons show ?case by simp
qed

text \<open>
  C3. Inserting a session under a key (peer, session id) that the registry already holds
  fails with \<open>DuplicateSession\<close> and leaves the registry as it was. Of any number of
  insert attempts for one free key, the one that runs first succeeds and registers its
  session, and every other one fails with \<open>DuplicateSession\<close>, whatever the order.
\<close>

theorem insert_repair_meta_duplicate:
  "(repair_meta_map rs (session_key rm) \<noteq> None \<longrightarrow>
      insert_repair_meta rs rm = (Inl DuplicateSession, rs)) \<and>
   (repair_meta_map rs (session_key rm) = None \<and>
    (\<forall>rm' \<in> set rms. session_key rm' = session_key rm) \<longrightarrow>
      fst (insert_attempts rs (rm # rms)) =
        Inr () # replicate (length rms) (Inl DuplicateSession) \<and>
      repair_meta_map (snd (insert_attempts rs (rm # rms))) =
        (repair_meta_map rs)(session_key rm \<mapsto> rm))"
proof (intro conjI impI)
  assume "repair_meta_map rs (session_key rm) \<noteq> None"
  then show "insert_repair_meta rs rm = (Inl DuplicateSession, rs)"
    by (rule insert_present)
next
  assume a: "repair_meta_map rs (session_key rm) = None \<and>
    (\<forall>rm' \<in> set rms. session_key rm' = session_key rm)"
  let ?rs = "rs\<lparr>repair_metas := (repair_metas rs)(session_key rm \<mapsto> rm)\<rparr>"
  from a have first: "insert_repair_meta rs rm = (Inr (), ?rs)"
    by (simp add: insert_free)
  have "repair_meta_map ?rs (session_key rm) \<noteq> None"
    by (simp add: repair_meta_map_def)
  with a have rest: "insert_attempts ?rs rms = (replicate (length rms) (Inl DuplicateSession), ?rs)"
    using insert_attempts_present [of ?rs "session_key rm" rms] by blast
  from first rest
  show "fst (insert_attempts rs (rm # rms)) = Inr () # replicate (length rms) (Inl DuplicateSession)"
    by simp
  from first rest
  show "repair_meta_map (snd (insert_attempts rs (rm # rms))) =
      (repair_meta_map rs)(session_key rm \<mapsto> rm)"
    by (simp add: repair_meta_map_def)
qed

theorem insert_repair_meta_duplicate_witness:
  "repair_meta_map (started_service 0) (session_key example_meta) = None \<and>
   session_key (example_meta\<lparr>seed := 43\<rparr>) = session_key example_meta \<and>
   fst (insert_attempts (started_service 0) [example_meta, example_meta\<lparr>seed := 43\<rparr>]) =
     [Inr (), Inl DuplicateSession] \<and>
   repair_meta_map (snd (insert_attempts (started_service 0)
       [example_meta, example_meta\<lparr>seed := 43\<rparr>])) (7, 3) = Some example_meta \<and>
   insert_repair_meta
       (snd (insert_attempts (started_service 0) [example_meta, example_meta\<lparr>seed := 43\<rparr>]))
       example_meta =
     (Inl DuplicateSession,
      snd (insert_attempts (started_service 0) [example_meta, example_meta\<lparr>seed := 43\<rparr>]))"
proof -
  have free: "repair_meta_map (started_service 0) (session_key example_meta) = None"
    by (simp add: repair_meta_map_def started_service_def)
  have same: "\<forall>rm' \<in> set [example_meta\<lparr>seed := 43\<rparr>]. session_key rm' = session_key example_meta"
    and key: "session_key example_meta = (7, 3)"
    by (simp_all add: session_key_def example_meta_def)
  from insert_repair_meta_duplicate
    [of "started_service 0" example_meta "[example_meta\<lparr>seed := 43\<rparr>]"] free same
  have run: "fst (insert_attempts (started_service 0) [example_meta, example_meta\<lparr>seed := 43\<rparr>]) =
      [Inr (), Inl DuplicateSession]"
    and reg: "repair_meta_map (snd (insert_attempts (started_service 0)
      [example_meta, example_meta\<lparr>seed := 43\<rparr>])) =
      (repair_meta_map (started_service 0))(session_key example_meta \<mapsto> example_meta)"
    by simp_all
  from reg have held: "repair_meta_map (snd (insert_attempts (started_service 0)
      [example_meta, example_meta\<lparr>seed := 43\<rparr>])) (session_key example_meta) \<noteq> None"
    by simp
  from insert_repair_meta_duplicate
    [of "snd (insert_attempts (started_service 0) [example_meta, example_meta\<lparr>seed := 43\<rparr>])"
      example_meta "[]"] held
  have "insert_repair_meta
       (snd (insert_attempts (started_service 0) [example_meta, example_meta\<lparr>seed := 43\<rparr>]))
       example_meta =
     (Inl DuplicateSession,
      snd (insert_attempts (started_service 0) [example_meta, example_meta\<lparr>seed := 43\<rparr>]))"
    by blast
  with free same run reg show ?thesis unfolding key by simp
qed

text \<open>
  C9. Removing all sessions of a peer reports no error and leaves exactly the sessions
  of the other peers; a second removal right after it reports no error either and
  changes nothing.
\<close>

theorem remove_repair_meta_from_idempotent:
  "fst (remove_repair_meta_from rs peer) = Inr () \<and>
   repair_meta_map (snd (remove_repair_meta_from rs peer)) =
     (\<lambda>key. if fst key = peer then None else repair_meta_map rs key) \<and>
   remove_repair_meta_from (snd (remove_repair_meta_from rs peer)) peer =
     (Inr (), snd (remove_repair_meta_from rs peer))"
proof -
  let ?rs = "snd (remove_repair_meta_from rs peer)"
  have ok: "fst (remove_repair_meta_from rs peer) = Inr ()"
    by (simp add: remove_repair_meta_from_def)
  have left: "repair_meta_map ?rs = (\<lambda>key. if fst key = peer then None else repair_meta_map rs key)"
    by (simp add: remove_repair_meta_from_def repair_meta_map_def cong: if_cong)
  have "repair_metas ?rs key = (if fst key = peer then None else repair_metas ?rs key)" for key
    using left by (simp add: repair_meta_map_def)
  then have "(\<lambda>key. if fst key = peer then None else repair_metas ?rs key) = repair_metas ?rs"
    by (simp add: fun_eq_iff)
  then have again: "remove_repair_meta_from ?rs peer = (Inr (), ?rs)"
    by (simp add: remove_repair_meta_from_def [of ?rs])
  from ok left again show ?thesis by simp
qed

lemma counter_after_allocations:
  "next_repair_meta_id (after_allocations n svc 0) = next_repair_meta_id (svc 0) + of_nat n"
  by (induction n arbitrary: svc) (simp_all add: get_next_repair_meta_id_def)

lemma allocated_ids_eq:
  "allocated_ids n svc = map (\<lambda>i. next_repair_meta_id (svc 0) + of_nat i) [0 ..< n]"
proof (induction n arbitrary: svc)
  case 0
  show ?case by simp
next
  case (Suc n)
  have "map (\<lambda>i. next_repair_meta_id (svc 0) + of_nat i) [0 ..< Suc n] =
      next_repair_meta_id (svc 0) #
        map (\<lambda>i. next_repair_meta_id (svc 0) + 1 + of_nat i) [0 ..< n]"
    by (simp only: upt_conv_Cons [of 0 "Suc n"] map_Suc_upt [symmetric]) (simp add: add.assoc)
  then show ?case
    by (simp add: Suc.IH get_next_repair_meta_id_def del: upt_Suc)
qed

lemma of_nat_32_inj:
  assumes "i < 2 ^ 32" "j < 2 ^ 32" "(of_nat i :: 32 word) = of_nat j"
  shows "i = j"
proof -
  from assms(3) have "unat (of_nat i :: 32 word) = unat (of_nat j :: 32 word)" by simp
  with assms(1,2) show ?thesis by (simp add: unat_of_nat)
qed

lemma allocated_ids_distinct:
  assumes "n \<le> 2 ^ 32"
  shows "distinct (allocated_ids n svc)"
proof -
  have "inj_on (\<lambda>i. next_repair_meta_id (svc 0) + (of_nat i :: 32 word)) {0 ..< n}"
  proof (rule inj_onI)
    fix i j assume "i \<in> {0 ..< n}" "j \<in> {0 ..< n}"
      and "next_repair_meta_id (svc 0) + (of_nat i :: 32 word) = next_repair_meta_id (svc 0) + of_nat j"
    with assms show "i = j" by (intro of_nat_32_inj) simp_all
  qed
  then show ?thesis by (simp add: allocated_ids_eq distinct_map)
qed

lemma word32_less_succ:
  fixes c :: "32 word"
  assumes "c \<noteq> - 1"
  shows "c < c + 1"
proof -
  from assms have "\<not> c + 1 \<le> c" by (simp add: inc_less_eq_self_iff_eq)
  then show ?thesis by simp
qed

lemma get_next_twice:
  "fst (get_next_repair_meta_id (snd (get_next_repair_meta_id svc))) =
     fst (get_next_repair_meta_id svc) + 1"
  by (simp add: get_next_repair_meta_id_def)

text \<open>
  C6, as the 32-bit counter allows it. The id comes from the counter of shard 0 and no
  other shard is touched. A call returns more than the call before it unless the counter
  stood at its last value \<open>2\<^sup>3\<^sup>2 - 1\<close>, and any \<open>2\<^sup>3\<^sup>2\<close> calls in a row return distinct
  ids.
\<close>

theorem get_next_repair_meta_id_increases:
  "(next_repair_meta_id (svc 0) \<noteq> - 1 \<longrightarrow>
      fst (get_next_repair_meta_id svc) <
        fst (get_next_repair_meta_id (snd (get_next_repair_meta_id svc)))) \<and>
   (n \<le> 2 ^ 32 \<longrightarrow> distinct (allocated_ids n svc)) \<and>
   (\<forall>shard. shard \<noteq> 0 \<longrightarrow> snd (get_next_repair_meta_id svc) shard = svc shard) \<and>
   fst (get_next_repair_meta_id svc) = next_repair_meta_id (svc 0)"
proof -
  have "fst (get_next_repair_meta_id svc) <
      fst (get_next_repair_meta_id (snd (get_next_repair_meta_id svc)))"
    if "next_repair_meta_id (svc 0) \<noteq> - 1"
    unfolding get_next_twice using word32_less_succ [OF that]
    by (simp add: get_next_repair_meta_id_def)
  moreover have "distinct (allocated_ids n svc)" if "n \<le> 2 ^ 32"
    using that by (rule allocated_ids_distinct)
  ultimately show ?thesis by (simp add: get_next_repair_meta_id_def)
qed

theorem get_next_repair_meta_id_increases_witness:
  "next_repair_meta_id (started_service 0) \<noteq> - 1 \<and>
   (3::nat) \<le> 2 ^ 32 \<and> (1::nat) \<noteq> 0 \<and>
   fst (get_next_repair_meta_id started_service) <
     fst (get_next_repair_meta_id (snd (get_next_repair_meta_id started_service))) \<and>
   distinct (allocated_ids 3 started_service) \<and>
   allocated_ids 3 started_service = [0, 1, 2] \<and>
   snd (get_next_repair_meta_id started_service) 1 = started_service 1"
proof -
  have a: "next_repair_meta_id (started_service 0) \<noteq> - 1"
    by (simp add: started_service_def)
  have b: "(3::nat) \<le> 2 ^ 32" "(1::nat) \<noteq> 0" by simp_all
  have c: "allocated_ids 3 started_service = [0, 1, 2]"
    by (simp add: numeral_3_eq_3 get_next_repair_meta_id_def started_service_def)
  from get_next_repair_meta_id_increases [of started_service 3] a b c
  show ?thesis by auto
qed

text \<open>
  C6, as the specification states it, fails on a \<^verbatim>\<open>uint32_t\<close> counter: after
  \<open>2\<^sup>3\<^sup>2 - 1\<close> allocations on a freshly started service the next call returns
  \<^verbatim>\<open>0xFFFFFFFF\<close> and the one after it returns 0, which is not greater and is the id the
  very first call returned.
\<close>

theorem get_next_repair_meta_id_wraps:
  "fst (get_next_repair_meta_id (after_allocations (2 ^ 32 - 1) started_service)) = 0xFFFFFFFF \<and>
   fst (get_next_repair_meta_id
     (snd (get_next_repair_meta_id (after_allocations (2 ^ 32 - 1) started_service)))) = 0 \<and>
   \<not> fst (get_next_repair_meta_id (after_allocations (2 ^ 32 - 1) started_service)) <
     fst (get_next_repair_meta_id
       (snd (get_next_repair_meta_id (after_allocations (2 ^ 32 - 1) started_service)))) \<and>
   fst (get_next_repair_meta_id (after_allocations (2 ^ 32) started_service)) =
     fst (get_next_repair_meta_id started_service)"
proof -
  have c: "next_repair_meta_id (after_allocations (2 ^ 32 - 1) started_service 0) = 0xFFFFFFFF"
    unfolding counter_after_allocations by (simp add: started_service_def)
  have d: "next_repair_meta_id (after_allocations (2 ^ 32) started_service 0) = 0"
    unfolding counter_after_allocations by (simp add: started_service_def)
  have e: "fst (get_next_repair_meta_id svc) = next_repair_meta_id (svc 0)" for svc
    by (simp add: get_next_repair_meta_id_def)
  show ?thesis
    unfolding get_next_twice unfolding e c d by (simp add: started_service_def)
qed

lemma update_history_result:
  "fst (update_history hs repair_id table_id range' t) = recorded_time hs (table_id, range')"
  by (simp add: update_history_def Let_def)

lemma update_history_recorded:
  "recorded_time (snd (update_history hs repair_id table_id range' t)) =
     (recorded_time hs)((table_id, range') \<mapsto>
        (case recorded_time hs (table_id, range') of None \<Rightarrow> t | Some p \<Rightarrow> max p t))"
  by (simp add: update_history_def Let_def)

lemma recorded_le_refl [simp]: "recorded_le a a"
  by (simp add: recorded_le_def split: option.splits)

lemma recorded_le_trans: "recorded_le a b \<Longrightarrow> recorded_le b c \<Longrightarrow> recorded_le a c"
  by (auto simp: recorded_le_def split: option.splits)

lemma history_step_monotonic:
  "recorded_le (recorded_time hs key) (recorded_time (history_step hs call) key)"
proof (cases call)
  case (Update_history repair_id table_id range' t)
  then show ?thesis
    by (simp add: update_history_recorded recorded_le_def split: option.splits)
next
  case (Cleanup_history repair_id)
  then show ?thesis by (simp add: cleanup_history_def)
qed

lemma history_run_monotonic:
  "recorded_le (recorded_time hs key) (recorded_time (foldl history_step hs calls) key)"
proof (induction calls arbitrary: hs)
  case Nil
  show ?case by simp
next
  case (Cons call calls)
  from history_step_monotonic [of hs key call] Cons [of "history_step hs call"]
  show ?case by (simp add: recorded_le_trans)
qed

lemma update_history_two_rounds:
  "recorded_time (snd (update_history (snd (update_history hs r1 table_id range' t1))
       r2 table_id range' t2)) (table_id, range') =
     Some (case recorded_time hs (table_id, range') of
             None \<Rightarrow> max t1 t2 | Some p \<Rightarrow> max p (max t1 t2))"
  by (simp add: update_history_recorded max.assoc split: option.splits)

text \<open>
  C5. \<^verbatim>\<open>update_history\<close> returns the time recorded before, never lowers the time
  recorded for any table and range, and records at least the time it was given; the
  same holds over any run of updates and cleanups. Two updates of one range from two
  rounds leave the maximum of the times, in whichever order they arrive.
\<close>

theorem update_history_monotonic:
  "fst (update_history hs repair_id table_id range' t) = recorded_time hs (table_id, range') \<and>
   recorded_le (recorded_time hs key)
     (recorded_time (snd (update_history hs repair_id table_id range' t)) key) \<and>
   recorded_le (Some t)
     (recorded_time (snd (update_history hs repair_id table_id range' t)) (table_id, range')) \<and>
   recorded_le (recorded_time hs key) (recorded_time (foldl history_step hs calls) key) \<and>
   recorded_time (snd (update_history (snd (update_history hs r1 table_id range' t1))
       r2 table_id range' t2)) (table_id, range') =
     Some (case recorded_time hs (table_id, range') of
             None \<Rightarrow> max t1 t2 | Some p \<Rightarrow> max p (max t1 t2)) \<and>
   recorded_time (snd (update_history (snd (update_history hs r1 table_id range' t1))
       r2 table_id range' t2)) (table_id, range') =
   recorded_time (snd (update_history (snd (update_history hs r2 table_id range' t2))
       r1 table_id range' t1)) (table_id, range')"
proof -
  have a: "recorded_le (recorded_time hs key)
      (recorded_time (snd (update_history hs repair_id table_id range' t)) key)"
    using history_step_monotonic [of hs key "Update_history repair_id table_id range' t"]
    by simp
  have b: "recorded_le (Some t)
      (recorded_time (snd (update_history hs repair_id table_id range' t)) (table_id, range'))"
    by (simp add: update_history_recorded recorded_le_def split: option.splits)
  have c: "recorded_time (snd (update_history (snd (update_history hs r1 table_id range' t1))
       r2 table_id range' t2)) (table_id, range') =
     recorded_time (snd (update_history (snd (update_history hs r2 table_id range' t2))
       r1 table_id range' t1)) (table_id, range')"
    unfolding update_history_two_rounds by (simp add: max.commute split: option.splits)
  from a b c show ?thesis
    by (simp only: update_history_result history_run_monotonic update_history_two_rounds)
qed

theorem update_history_monotonic_witness:
  "recorded_time (foldl history_step empty_history
      [Update_history 1 5 (0, 100) 20, Update_history 2 5 (0, 100) 10, Cleanup_history 1])
      (5, (0, 100)) = Some 20 \<and>
   recorded_le (recorded_time (snd (update_history empty_history 1 5 (0, 100) 20)) (5, (0, 100)))
     (recorded_time (snd (update_history (snd (update_history empty_history 1 5 (0, 100) 20))
        2 5 (0, 100) 10)) (5, (0, 100))) \<and>
   fst (update_history (snd (update_history empty_history 1 5 (0, 100) 20)) 2 5 (0, 100) 10) =
     Some 20"
proof -
  have r: "recorded_time (snd (update_history empty_history 1 5 (0, 100) 20)) (5, (0, 100)) =
      Some 20"
    by (simp add: update_history_recorded empty_history_def)
  have run: "recorded_time (foldl history_step empty_history
      [Update_history 1 5 (0, 100) 20, Update_history 2 5 (0, 100) 10, Cleanup_history 1])
      (5, (0, 100)) = Some 20"
    by (simp add: update_history_recorded empty_history_def cleanup_history_def)
  from update_history_monotonic
    [of "snd (update_history empty_history 1 5 (0, 100) 20)" 2 5 "(0, 100)" 10 "(5, (0, 100))"]
    r run
  show ?thesis by simp
qed

lemma admit_max [simp]: "max_repair_memory (admit b ws) = max_repair_memory b"
  by (induction b ws rule: admit.induct) simp_all

lemma admit_conserved:
  "available (admit b ws) + outstanding (admit b ws) = available b + outstanding b"
  by (induction b ws rule: admit.induct) (simp_all add: outstanding_def)

lemma admit_sessions:
  "fst ` set (guards (admit b ws)) \<union> fst ` set (waiting (admit b ws)) =
     fst ` set (guards b) \<union> fst ` set ws"
  by (induction b ws rule: admit.induct) auto

lemma sum_list_partition:
  "sum_list (map snd (filter (\<lambda>g. fst g = s) gs)) +
   sum_list (map snd (filter (\<lambda>g. fst g \<noteq> s) gs)) = sum_list (map snd gs)"
  for gs :: "(nat \<times> nat) list"
  by (induction gs) auto

lemma acquire_conserved: "conserved b \<Longrightarrow> conserved (acquire s n b)"
  by (simp add: conserved_def acquire_def admit_conserved)

lemma release_conserved: "conserved b \<Longrightarrow> conserved (release s b)"
proof -
  assume c: "conserved b"
  let ?b = "b\<lparr>available := available b + sum_list (map snd (filter (\<lambda>g. fst g = s) (guards b))),
      guards := filter (\<lambda>g. fst g \<noteq> s) (guards b)\<rparr>"
  have "available ?b + outstanding ?b = available b + outstanding b"
    using sum_list_partition [of s "guards b"] by (simp add: outstanding_def)
  with c show ?thesis
    by (simp add: conserved_def release_def admit_conserved)
qed

lemma abort_conserved: "conserved b \<Longrightarrow> conserved (abort s b)"
proof -
  assume "conserved b"
  then have "conserved (b\<lparr>waiting := filter (\<lambda>r. fst r \<noteq> s) (waiting b)\<rparr>)"
    by (simp add: conserved_def outstanding_def)
  then show ?thesis unfolding abort_def by (rule release_conserved)
qed

lemma memory_step_conserved: "conserved b \<Longrightarrow> conserved (memory_step b x)"
  by (cases x) (simp_all add: acquire_conserved release_conserved abort_conserved)

lemma memory_run_conserved: "conserved b \<Longrightarrow> conserved (memory_run ops b)"
  unfolding memory_run_def
  by (induction ops arbitrary: b) (simp_all add: memory_step_conserved)

lemma memory_sem_conserved: "conserved (memory_sem m)"
  by (simp add: conserved_def memory_sem_def outstanding_def)

lemma memory_run_max [simp]: "max_repair_memory (memory_run ops b) = max_repair_memory b"
proof -
  have "max_repair_memory (memory_step b x) = max_repair_memory b" for b x
    by (cases x) (simp_all add: acquire_def release_def abort_def)
  then show ?thesis
    unfolding memory_run_def by (induction ops arbitrary: b) simp_all
qed

lemma acquire_sessions: "sessions_in (acquire s n b) = insert s (sessions_in b)"
  by (auto simp: sessions_in_def acquire_def admit_sessions)

lemma release_sessions: "sessions_in (release s b) \<subseteq> sessions_in b"
  by (auto simp: sessions_in_def release_def admit_sessions)

lemma abort_sessions: "sessions_in (abort s b) = sessions_in b - {s}"
  by (auto simp: sessions_in_def abort_def release_def admit_sessions)

lemma memory_step_sessions: "sessions_in (memory_step b x) \<subseteq> insert (session_of x) (sessions_in b)"
  using release_sessions [of "session_of x" b]
  by (cases x) (auto simp: acquire_sessions abort_sessions)

lemma memory_run_sessions:
  "sessions_in (memory_run ops b) \<subseteq> sessions_in b \<union> session_of ` set ops"
  unfolding memory_run_def
proof (induction ops arbitrary: b)
  case Nil
  show ?case by simp
next
  case (Cons x ops)
  from Cons [of "memory_step b x"] memory_step_sessions [of b x]
  show ?case by auto
qed

lemma abort_all_sessions:
  "sessions_in (memory_run (map Abort ss) b) = sessions_in b - set ss"
  unfolding memory_run_def
  by (induction ss arbitrary: b) (auto simp: abort_sessions)

lemma memory_run_append: "memory_run (xs @ ys) b = memory_run ys (memory_run xs b)"
  by (simp add: memory_run_def)

lemma no_sessions_terminated: "sessions_in b = {} \<longleftrightarrow> all_terminated b"
  by (auto simp: sessions_in_def all_terminated_def)

text \<open>
  C4. After any sequence of acquire, release and abort on a budget created with maximum
  \<open>m\<close>, the outstanding bytes are at most \<open>m\<close>, and together with the available bytes
  they are exactly \<open>m\<close>. When no session holds a guard or waits, all of \<open>m\<close> is
  available; this is the state reached once every session of the sequence has been
  aborted.
\<close>

theorem memory_budget_conservation:
  "outstanding (memory_run ops (memory_sem m)) \<le> m \<and>
   available (memory_run ops (memory_sem m)) + outstanding (memory_run ops (memory_sem m)) = m \<and>
   (all_terminated (memory_run ops (memory_sem m)) \<longrightarrow>
      available (memory_run ops (memory_sem m)) = m) \<and>
   (session_of ` set ops \<subseteq> set ss \<longrightarrow>
      all_terminated (memory_run (ops @ map Abort ss) (memory_sem m)) \<and>
      available (memory_run (ops @ map Abort ss) (memory_sem m)) = m)"
proof -
  have inv: "available (memory_run xs (memory_sem m)) + outstanding (memory_run xs (memory_sem m)) = m"
    for xs
    using memory_run_conserved [OF memory_sem_conserved, of xs m]
    by (simp add: conserved_def) (simp add: memory_sem_def)
  have idle: "available (memory_run xs (memory_sem m)) = m"
    if "all_terminated (memory_run xs (memory_sem m))" for xs
    using inv [of xs] that by (simp add: all_terminated_def outstanding_def)
  have fin: "all_terminated (memory_run (ops @ map Abort ss) (memory_sem m))"
    if "session_of ` set ops \<subseteq> set ss"
  proof -
    have "sessions_in (memory_sem m) = {}"
      by (simp add: sessions_in_def memory_sem_def)
    with memory_run_sessions [of ops "memory_sem m"] that
    have "sessions_in (memory_run ops (memory_sem m)) \<subseteq> set ss" by auto
    then have "sessions_in (memory_run (ops @ map Abort ss) (memory_sem m)) = {}"
      by (simp add: memory_run_append abort_all_sessions)
    then show ?thesis by (simp only: no_sessions_terminated)
  qed
  from inv [of ops] idle [of ops] fin idle [of "ops @ map Abort ss"]
  show ?thesis by auto
qed

theorem memory_budget_conservation_witness:
  "memory_run example_ops (memory_sem 100) =
     \<lparr>max_repair_memory = 100, available = 70, guards = [(3, 30)], waiting = []\<rparr> \<and>
   outstanding (memory_run example_ops (memory_sem 100)) \<le> 100 \<and>
   session_of ` set example_ops \<subseteq> set [1, 2, 3] \<and>
   all_terminated (memory_run (example_ops @ map Abort [1, 2, 3]) (memory_sem 100)) \<and>
   available (memory_run (example_ops @ map Abort [1, 2, 3]) (memory_sem 100)) = 100"
proof -
  have r: "memory_run example_ops (memory_sem 100) =
      \<lparr>max_repair_memory = 100, available = 70, guards = [(3, 30)], waiting = []\<rparr>"
    by (simp add: example_ops_def memory_run_def memory_sem_def acquire_def release_def abort_def)
  have s: "session_of ` set example_ops \<subseteq> set [1, 2, 3]"
    by (simp add: example_ops_def)
  from memory_budget_conservation [of example_ops 100 "[1, 2, 3]"] r s
  show ?thesis by simp
qed


end
